theory Spec2Isabelle
  imports Complex_Main "HOL-Library.Multiset"
begin

section \<open>node-accept-language: the negotiator of \<^verbatim>\<open>Source/AcceptLanguage.ts\<close>\<close>

text \<open>
  The class \<^verbatim>\<open>AcceptLanguage\<close> keeps an index of the supported language tags, keyed by
  primary language, and a default tag. \<^verbatim>\<open>languages\<close> builds the index, \<^verbatim>\<open>parse\<close>
  (the spec's \<open>resolveAll\<close>) and \<^verbatim>\<open>get\<close> (the spec's \<open>resolve\<close>) read it.

  Three things the source calls are not part of the repository: the package \<^verbatim>\<open>bcp47\<close>
  (\<^verbatim>\<open>bcp47.parse\<close>), the package \<^verbatim>\<open>stable\<close> (a stable sort taking a comparator) and
  ECMAScript's \<^verbatim>\<open>parseFloat\<close>. They are parameters of the model, collected in the record
  \<open>externals\<close>; what a theorem needs of them is a hypothesis of that theorem.

  Modelling decisions:
  \<^item> a JavaScript string is a \<open>string\<close>, a list of code units below 256 (what a header
    field carries); \<^verbatim>\<open>null\<close> and \<^verbatim>\<open>undefined\<close> are \<open>None\<close>;
  \<^item> a number is a \<open>jsnum\<close>: not-a-number, the two infinities, or a finite value given
    by the rational it denotes. Subtraction of finite values is exact; the consumer of
    the comparator only looks at the sign of a difference, which rounding keeps;
  \<^item> the index object is created by \<^verbatim>\<open>{}\<close>, so reading a property of it finds its own
    properties and, for a key that is not one of them, the properties every object
    inherits from \<^verbatim>\<open>Object.prototype\<close> (such as \<^verbatim>\<open>toString\<close> and \<^verbatim>\<open>valueOf\<close>);
  \<^item> a method is a function from the instance to a result and the instance afterwards;
    a \<^verbatim>\<open>throw\<close> is an error value returned with the instance as the throw leaves it.
\<close>

subsection \<open>Numbers\<close>

datatype jsnum = NaN | NegInfinity | Finite rat | PosInfinity

text \<open>\<^verbatim>\<open>a - b\<close> on numbers.\<close>

fun js_minus :: "jsnum \<Rightarrow> jsnum \<Rightarrow> jsnum" where
  "js_minus NaN _ = NaN"
| "js_minus _ NaN = NaN"
| "js_minus (Finite a) (Finite b) = Finite (a - b)"
| "js_minus (Finite a) PosInfinity = NegInfinity"
| "js_minus (Finite a) NegInfinity = PosInfinity"
| "js_minus PosInfinity PosInfinity = NaN"
| "js_minus PosInfinity _ = PosInfinity"
| "js_minus NegInfinity NegInfinity = NaN"
| "js_minus NegInfinity _ = NegInfinity"

text \<open>\<^verbatim>\<open>n <= 0\<close>, \<^verbatim>\<open>n > 0\<close> and \<^verbatim>\<open>n < 0\<close>: every comparison with not-a-number is false.\<close>

fun js_le0 :: "jsnum \<Rightarrow> bool" where
  "js_le0 NaN = False"
| "js_le0 NegInfinity = True"
| "js_le0 (Finite a) = (a \<le> 0)"
| "js_le0 PosInfinity = False"

fun js_gt0 :: "jsnum \<Rightarrow> bool" where
  "js_gt0 NaN = False"
| "js_gt0 NegInfinity = False"
| "js_gt0 (Finite a) = (0 < a)"
| "js_gt0 PosInfinity = True"

fun js_lt0 :: "jsnum \<Rightarrow> bool" where
  "js_lt0 NaN = False"
| "js_lt0 NegInfinity = True"
| "js_lt0 (Finite a) = (a < 0)"
| "js_lt0 PosInfinity = False"

subsection \<open>Strings and arrays\<close>

text \<open>\<^verbatim>\<open>xs[i]\<close>: \<^verbatim>\<open>undefined\<close> out of range.\<close>

definition js_index :: "'a list \<Rightarrow> nat \<Rightarrow> 'a option" where
  "js_index xs i = (if i < length xs then Some (xs ! i) else None)"

text \<open>
  \<^verbatim>\<open>s.split(sep)\<close> for a one-character separator: the pieces between the separators, so
  the result is never empty (\<^verbatim>\<open>"".split(",")\<close> is \<^verbatim>\<open>[""]\<close>).
\<close>

fun js_split :: "char \<Rightarrow> string \<Rightarrow> string list" where
  "js_split sep [] = [[]]"
| "js_split sep (c # cs) =
     (if c = sep then [] # js_split sep cs
      else (case js_split sep cs of
              [] \<Rightarrow> [[c]]
            | w # ws \<Rightarrow> (c # w) # ws))"

text \<open>
  The class \<^verbatim>\<open>\s\<close> of a regular expression, on the code units below 256: tab, line
  feed, vertical tab, form feed, carriage return, space and no-break space.
\<close>

definition is_space :: "char \<Rightarrow> bool" where
  "is_space c = (of_char c \<in> {9, 10, 11, 12, 13, 32, 160 :: nat})"

text \<open>
  \<^verbatim>\<open>s.replace(/\s+/, '')\<close>: the regular expression has no \<^verbatim>\<open>g\<close> flag, so only the first
  run of white space is removed.
\<close>

definition js_replace_ws :: "string \<Rightarrow> string" where
  "js_replace_ws s =
     takeWhile (\<lambda>c. \<not> is_space c) s @ dropWhile is_space (dropWhile (\<lambda>c. \<not> is_space c) s)"

text \<open>Truthiness of a value that is a string or \<^verbatim>\<open>null\<close>: only a non-empty string is truthy.\<close>

definition truthy_str :: "string option \<Rightarrow> bool" where
  "truthy_str v = (case v of None \<Rightarrow> False | Some s \<Rightarrow> s \<noteq> [])"

text \<open>An array is an object, and every object is truthy, the empty array too.\<close>

definition truthy_arr :: "'a list \<Rightarrow> bool" where
  "truthy_arr xs = True"

text \<open>The property key a value is converted to: \<^verbatim>\<open>obj[null]\<close> is \<^verbatim>\<open>obj["null"]\<close>.\<close>

definition to_key :: "string option \<Rightarrow> string" where
  "to_key v = (case v of None \<Rightarrow> ''null'' | Some s \<Rightarrow> s)"

text \<open>
  The names of the properties that an object created by \<^verbatim>\<open>{}\<close> inherits from
  \<^verbatim>\<open>Object.prototype\<close>. Their values are functions, or for \<^verbatim>\<open>__proto__\<close> the prototype
  itself: truthy values that have no \<^verbatim>\<open>push\<close> and cannot be iterated.
\<close>

definition object_prototype_keys :: "string list" where
  "object_prototype_keys =
     [''constructor'', ''__defineGetter__'', ''__defineSetter__'', ''hasOwnProperty'',
      ''__lookupGetter__'', ''__lookupSetter__'', ''isPrototypeOf'',
      ''propertyIsEnumerable'', ''toString'', ''valueOf'', ''__proto__'',
      ''toLocaleString'']"

definition inherited_key :: "string \<Rightarrow> bool" where
  "inherited_key k = (k \<in> set object_prototype_keys)"

text \<open>
  \<^verbatim>\<open>obj[key]\<close> on such an object: the own property, else the inherited one, else
  \<^verbatim>\<open>undefined\<close>.
\<close>

datatype 'a lookup = Own 'a | Inherited | Absent

definition js_lookup :: "(string \<rightharpoonup> 'a) \<Rightarrow> string \<Rightarrow> 'a lookup" where
  "js_lookup obj key =
     (case obj key of
        Some v \<Rightarrow> Own v
      | None \<Rightarrow> if inherited_key key then Inherited else Absent)"

subsection \<open>Data\<close>

text \<open>
  \<^verbatim>\<open>bcp47.LanguageTag\<close>, the \<^verbatim>\<open>langtag\<close> part of what \<^verbatim>\<open>bcp47.parse\<close> returns. The field
  \<open>language\<close> is \<^verbatim>\<open>langtag.language.language\<close>, \<open>extlang\<close> is
  \<^verbatim>\<open>langtag.language.extlang\<close>. Script and region are a string or \<^verbatim>\<open>null\<close>; variant,
  extension and privateuse are arrays.
\<close>

record ExtensionItem =
  item_singleton :: string
  item_extension :: "string list"

record LanguageTag =
  language :: "string option"
  extlang :: "string list"
  script :: "string option"
  region :: "string option"
  variant :: "string list"
  extension :: "ExtensionItem list"
  privateuse :: "string list"

record LanguageTagWithValue = LanguageTag +
  value' :: string

text \<open>An element of the list \<^verbatim>\<open>parseAndSortLanguageTags\<close> builds.\<close>

record Component =
  tag :: string
  quality :: jsnum

text \<open>The collaborators that are not in the repository.\<close>

record externals =
  bcp47_parse :: "string \<Rightarrow> LanguageTag option"
  stable :: "Component list \<Rightarrow> (Component \<Rightarrow> Component \<Rightarrow> jsnum) \<Rightarrow> Component list"
  parseFloat :: "string \<Rightarrow> jsnum"

text \<open>
  The fields of the class. \<open>own_create\<close> tells whether the instance has a property
  \<^verbatim>\<open>create\<close> of its own, as the module's function \<^verbatim>\<open>create\<close> gives it, or only the
  method of the class.
\<close>

record AcceptLanguage =
  languageTagsWithValues :: "string \<rightharpoonup> LanguageTagWithValue list"
  defaultLanguageTag :: "string option"
  own_create :: bool

text \<open>
  What \<^verbatim>\<open>languages\<close> throws: \<^verbatim>\<open>Error('The number of defined languages cannot be smaller
  than one.')\<close>, \<^verbatim>\<open>TypeError('Language tag ' + s + ' is not bcp47 compliant. ...')\<close> and
  \<^verbatim>\<open>TypeError('Language tag ' + s + ' is not supported.')\<close>, under the names the spec
  gives them. The last two are thrown by the runtime, not by a \<^verbatim>\<open>throw\<close> of the source:
  the \<^verbatim>\<open>TypeError\<close> of calling \<^verbatim>\<open>push\<close> on a value that has none, and the \<^verbatim>\<open>TypeError\<close> of
  \<^verbatim>\<open>for ... of\<close> over a value that is not iterable.
\<close>

datatype error =
    ConfigurationError
  | InvalidTagError string
  | UnsupportedTagError string
  | NotAFunctionError
  | NotIterableError

subsection \<open>\<^verbatim>\<open>languages\<close>\<close>

text \<open>The cast of the parsed tag to \<^verbatim>\<open>LanguageTagWithValue\<close> and the assignment of \<^verbatim>\<open>value\<close>.\<close>

definition with_value :: "LanguageTag \<Rightarrow> string \<Rightarrow> LanguageTagWithValue" where
  "with_value langtag languageTagString =
     LanguageTag.extend langtag (LanguageTagWithValue.fields languageTagString)"

text \<open>
  The body of \<^verbatim>\<open>forEach\<close>, on the index built so far. A throw ends the iteration and
  leaves the index as the earlier iterations made it. The test
  \<^verbatim>\<open>!this.languageTagsWithValues[language]\<close> is true only when the index has no
  property \<open>language\<close>, own or inherited; on an inherited one, the \<^verbatim>\<open>else\<close> branch calls
  \<^verbatim>\<open>push\<close> on a value that has none.
\<close>

fun forEach_languages ::
  "externals \<Rightarrow> string list \<Rightarrow> (string \<rightharpoonup> LanguageTagWithValue list) \<Rightarrow>
     error option \<times> (string \<rightharpoonup> LanguageTagWithValue list)" where
  "forEach_languages X [] idx = (None, idx)"
| "forEach_languages X (languageTagString # rest) idx =
     (case bcp47_parse X languageTagString of
        None \<Rightarrow> (Some (InvalidTagError languageTagString), idx)
      | Some langtag \<Rightarrow>
          if \<not> truthy_str (language langtag)
          then (Some (UnsupportedTagError languageTagString), idx)
          else
            let lang = to_key (language langtag);
                languageTagWithValues' = with_value langtag languageTagString
            in (case js_lookup idx lang of
                  Absent \<Rightarrow>
                    forEach_languages X rest (idx(lang \<mapsto> [languageTagWithValues']))
                | Own bucket \<Rightarrow>
                    forEach_languages X rest (idx(lang \<mapsto> bucket @ [languageTagWithValues']))
                | Inherited \<Rightarrow> (Some NotAFunctionError, idx)))"

definition languages ::
  "externals \<Rightarrow> string list \<Rightarrow> AcceptLanguage \<Rightarrow> error option \<times> AcceptLanguage" where
  "languages X definedLanguages this =
     (if length definedLanguages < 1 then (Some ConfigurationError, this)
      else
        (case forEach_languages X definedLanguages Map.empty of
           (Some e, idx) \<Rightarrow> (Some e, this\<lparr>languageTagsWithValues := idx\<rparr>)
         | (None, idx) \<Rightarrow>
             (None, this\<lparr>languageTagsWithValues := idx,
                         defaultLanguageTag := js_index definedLanguages 0\<rparr>)))"

subsection \<open>\<^verbatim>\<open>parseAndSortLanguageTags\<close>\<close>

text \<open>\<^verbatim>\<open>parseFloat(x)\<close> converts its argument to a string first: \<^verbatim>\<open>undefined\<close> becomes \<^verbatim>\<open>"undefined"\<close>.\<close>

definition js_parseFloat :: "externals \<Rightarrow> string option \<Rightarrow> jsnum" where
  "js_parseFloat X arg =
     (case arg of None \<Rightarrow> parseFloat X ''undefined'' | Some s \<Rightarrow> parseFloat X s)"

text \<open>The function given to \<^verbatim>\<open>map\<close>.\<close>

definition weighted :: "externals \<Rightarrow> string \<Rightarrow> Component" where
  "weighted X weightedLanguageRange =
     (let components = js_split CHR '';'' (js_replace_ws weightedLanguageRange)
      in \<lparr>tag = (case js_index components 0 of None \<Rightarrow> [] | Some t \<Rightarrow> t),
          quality =
            (if truthy_str (js_index components 1)
             then js_parseFloat X
                    (js_index (js_split CHR ''='' (the (js_index components 1))) 1)
             else Finite 1)\<rparr>)"

text \<open>The function given to \<^verbatim>\<open>filter\<close>: an element is an object, so only the tag decides.\<close>

definition defined_tag :: "Component \<Rightarrow> bool" where
  "defined_tag languageTag = (tag languageTag \<noteq> [])"

text \<open>The comparator given to \<^verbatim>\<open>stable\<close>.\<close>

definition by_quality :: "Component \<Rightarrow> Component \<Rightarrow> jsnum" where
  "by_quality a b = js_minus (quality b) (quality a)"

text \<open>The array given to \<^verbatim>\<open>stable\<close>.\<close>

definition weighted_tags :: "externals \<Rightarrow> string \<Rightarrow> Component list" where
  "weighted_tags X languagePriorityList =
     filter defined_tag (map (weighted X) (js_split CHR '','' languagePriorityList))"

definition parseAndSortLanguageTags :: "externals \<Rightarrow> string \<Rightarrow> Component list" where
  "parseAndSortLanguageTags X languagePriorityList =
     stable X (weighted_tags X languagePriorityList) by_quality"

subsection \<open>\<^verbatim>\<open>parse\<close> and \<^verbatim>\<open>get\<close>\<close>

datatype propname = Privateuse | Extension | Variant | Region | Script

definition props :: "propname list" where
  "props = [Privateuse, Extension, Variant, Region, Script]"

text \<open>
  The loop over a \<^verbatim>\<open>privateuse\<close> or \<^verbatim>\<open>variant\<close> array, from index \<open>i\<close>: \<open>False\<close> is
  \<^verbatim>\<open>continue middle\<close>, \<open>True\<close> is the end of the loop.
\<close>

function positional_loop :: "string list \<Rightarrow> string list \<Rightarrow> nat \<Rightarrow> bool" where
  "positional_loop definedValue requestedValue i =
     (if i < length definedValue
      then (if Some (definedValue ! i) \<noteq> js_index requestedValue i then False
            else positional_loop definedValue requestedValue (i + 1))
      else True)"
  by pat_completeness auto
termination
  by (relation "measure (\<lambda>(d, r, i). length d - i)") auto

text \<open>
  The loop over the subtags of one extension of the defined tag, against the extension of
  the requested tag at the same index (\<^verbatim>\<open>undefined\<close> when there is none).
\<close>

function extension_inner_loop ::
  "string list \<Rightarrow> ExtensionItem option \<Rightarrow> nat \<Rightarrow> bool" where
  "extension_inner_loop extensions requestedItem ei =
     (if ei < length extensions
      then (case requestedItem of
              None \<Rightarrow> False
            | Some r \<Rightarrow>
                if Some (extensions ! ei) \<noteq> js_index (item_extension r) ei then False
                else extension_inner_loop extensions requestedItem (ei + 1))
      else True)"
  by pat_completeness auto
termination
  by (relation "measure (\<lambda>(e, r, ei). length e - ei)") auto

function extension_loop :: "ExtensionItem list \<Rightarrow> ExtensionItem list \<Rightarrow> nat \<Rightarrow> bool" where
  "extension_loop definedValue requestedValue i =
     (if i < length definedValue
      then (if \<not> extension_inner_loop (item_extension (definedValue ! i))
                   (js_index requestedValue i) 0
            then False
            else extension_loop definedValue requestedValue (i + 1))
      else True)"
  by pat_completeness auto
termination
  by (relation "measure (\<lambda>(d, r, i). length d - i)") auto

text \<open>
  One iteration of the loop over the property names: \<open>True\<close> when the iteration ends
  without \<^verbatim>\<open>continue middle\<close>.
\<close>

fun prop_passes ::
  "propname \<Rightarrow> 'a LanguageTag_scheme \<Rightarrow> 'b LanguageTag_scheme \<Rightarrow> bool" where
  "prop_passes Privateuse definedLangTag requestedLangTag =
     (if \<not> truthy_arr (privateuse definedLangTag) then True
      else if truthy_arr (privateuse definedLangTag) \<and> \<not> truthy_arr (privateuse requestedLangTag)
      then False
      else positional_loop (privateuse definedLangTag) (privateuse requestedLangTag) 0)"
| "prop_passes Variant definedLangTag requestedLangTag =
     (if \<not> truthy_arr (variant definedLangTag) then True
      else if truthy_arr (variant definedLangTag) \<and> \<not> truthy_arr (variant requestedLangTag)
      then False
      else positional_loop (variant definedLangTag) (variant requestedLangTag) 0)"
| "prop_passes Extension definedLangTag requestedLangTag =
     (if \<not> truthy_arr (extension definedLangTag) then True
      else if truthy_arr (extension definedLangTag) \<and> \<not> truthy_arr (extension requestedLangTag)
      then False
      else extension_loop (extension definedLangTag) (extension requestedLangTag) 0)"
| "prop_passes Region definedLangTag requestedLangTag =
     (if \<not> truthy_str (region definedLangTag) then True
      else if truthy_str (region definedLangTag) \<and> \<not> truthy_str (region requestedLangTag)
      then False
      else if region definedLangTag \<noteq> region requestedLangTag then False
      else True)"
| "prop_passes Script definedLangTag requestedLangTag =
     (if \<not> truthy_str (script definedLangTag) then True
      else if truthy_str (script definedLangTag) \<and> \<not> truthy_str (script requestedLangTag)
      then False
      else if script definedLangTag \<noteq> script requestedLangTag then False
      else True)"

text \<open>The loop over the property names: \<open>True\<close> when it ends, so that the value is pushed.\<close>

fun props_loop ::
  "propname list \<Rightarrow> 'a LanguageTag_scheme \<Rightarrow> 'b LanguageTag_scheme \<Rightarrow> bool" where
  "props_loop [] definedLangTag requestedLangTag = True"
| "props_loop (p # ps) definedLangTag requestedLangTag =
     (if prop_passes p definedLangTag requestedLangTag
      then props_loop ps definedLangTag requestedLangTag
      else False)"

text \<open>The loop labelled \<^verbatim>\<open>middle\<close>, over the bucket of the requested language.\<close>

fun middle_loop ::
  "LanguageTagWithValue list \<Rightarrow> LanguageTag \<Rightarrow> string list \<Rightarrow> string list" where
  "middle_loop [] requestedLangTag result = result"
| "middle_loop (definedLangTag # rest) requestedLangTag result =
     (if props_loop props definedLangTag requestedLangTag
      then middle_loop rest requestedLangTag (result @ [value' definedLangTag])
      else middle_loop rest requestedLangTag result)"

text \<open>
  The loop over the sorted requested tags: the result when it ends, or the error that
  leaves it. The guard \<^verbatim>\<open>!this.languageTagsWithValues[...]\<close> skips a language only when
  the index has no property of that name, own or inherited; on an inherited one the loop
  \<^verbatim>\<open>for (const definedLangTag of ...)\<close> is given a value that is not iterable.
\<close>

fun outer_loop ::
  "externals \<Rightarrow> (string \<rightharpoonup> LanguageTagWithValue list) \<Rightarrow> Component list \<Rightarrow>
     string list \<Rightarrow> error + string list" where
  "outer_loop X idx [] result = Inr result"
| "outer_loop X idx (languageTag # rest) result =
     (case bcp47_parse X (tag languageTag) of
        None \<Rightarrow> outer_loop X idx rest result
      | Some requestedLangTag \<Rightarrow>
          (case js_lookup idx (to_key (language requestedLangTag)) of
             Absent \<Rightarrow> outer_loop X idx rest result
           | Inherited \<Rightarrow> Inl NotIterableError
           | Own bucket \<Rightarrow>
               outer_loop X idx rest (middle_loop bucket requestedLangTag result)))"

definition parse ::
  "externals \<Rightarrow> string option \<Rightarrow> AcceptLanguage \<Rightarrow>
     (error + string option list) \<times> AcceptLanguage" where
  "parse X languagePriorityList this =
     (if \<not> truthy_str languagePriorityList then (Inr [defaultLanguageTag this], this)
      else
        let parsedAndSortedLanguageTags =
              parseAndSortLanguageTags X (the languagePriorityList)
        in (case outer_loop X (languageTagsWithValues this) parsedAndSortedLanguageTags [] of
              Inl e \<Rightarrow> (Inl e, this)
            | Inr result \<Rightarrow>
                (Inr (if length result > 0 then map Some result
                      else [defaultLanguageTag this]), this)))"

text \<open>
  \<^verbatim>\<open>get\<close> is the element 0 of what \<^verbatim>\<open>parse\<close> returns, \<^verbatim>\<open>undefined\<close> if there is none; an
  error that leaves \<^verbatim>\<open>parse\<close> leaves \<^verbatim>\<open>get\<close>.
\<close>

definition get ::
  "externals \<Rightarrow> string option \<Rightarrow> AcceptLanguage \<Rightarrow>
     (error + string option) \<times> AcceptLanguage" where
  "get X languagePriorityList this =
     (case parse X languagePriorityList this of
        (Inl e, this') \<Rightarrow> (Inl e, this')
      | (Inr r, this') \<Rightarrow>
          (Inr (case js_index r 0 of None \<Rightarrow> None | Some v \<Rightarrow> v), this'))"

subsection \<open>Construction\<close>

text \<open>\<^verbatim>\<open>new AcceptLanguage()\<close>: the field initialisers, and no property \<^verbatim>\<open>create\<close> of its own.\<close>

definition new_AcceptLanguage :: AcceptLanguage where
  "new_AcceptLanguage =
     \<lparr>languageTagsWithValues = Map.empty, defaultLanguageTag = None, own_create = False\<rparr>"

text \<open>
  The module's function \<^verbatim>\<open>create\<close>, whose result the module exports: a new instance that
  is given a property \<^verbatim>\<open>create\<close> of its own.
\<close>

definition module_create :: AcceptLanguage where
  "module_create = new_AcceptLanguage\<lparr>own_create := True\<rparr>"

text \<open>
  The call \<^verbatim>\<open>al.create()\<close>: the own property, \<^verbatim>\<open>function() { return new AcceptLanguage(); }\<close>,
  where the instance has it, and otherwise the method of the class, which returns \<^verbatim>\<open>null\<close>.
\<close>

definition create :: "AcceptLanguage \<Rightarrow> AcceptLanguage option \<times> AcceptLanguage" where
  "create this = (if own_create this then (Some new_AcceptLanguage, this) else (None, this))"

subsection \<open>Instances of the collaborators\<close>

text \<open>
  The theorems below hold for every choice of the collaborators that meets their
  hypotheses. To evaluate the code on concrete tags and priority lists, this section
  gives one choice.
\<close>

text \<open>
  Modelled from the spec: \<open>stableSort\<close>, the external stable sort (package \<^verbatim>\<open>stable\<close>),
  "total order by compare, ties resolved by original position", as the merge sort that
  the package is: the array is cut into runs of one element, and passes merge the runs
  two by two, first with second, third with fourth, until one run is left. A merge takes
  the head of the left run when the comparator's result on the two heads is \<^verbatim>\<open><= 0\<close>, and
  the head of the right run otherwise.
\<close>

fun merge_by :: "('a \<Rightarrow> 'a \<Rightarrow> jsnum) \<Rightarrow> 'a list \<Rightarrow> 'a list \<Rightarrow> 'a list" where
  "merge_by cmp [] ys = ys"
| "merge_by cmp (x # xs) [] = x # xs"
| "merge_by cmp (x # xs) (y # ys) =
     (if js_le0 (cmp x y) then x # merge_by cmp xs (y # ys)
      else y # merge_by cmp (x # xs) ys)"

fun pass :: "('a \<Rightarrow> 'a \<Rightarrow> jsnum) \<Rightarrow> 'a list list \<Rightarrow> 'a list list" where
  "pass cmp (l # r # runs) = merge_by cmp l r # pass cmp runs"
| "pass cmp [l] = [l]"
| "pass cmp [] = []"

function exec :: "('a \<Rightarrow> 'a \<Rightarrow> jsnum) \<Rightarrow> 'a list list \<Rightarrow> 'a list" where
  "exec cmp [] = []"
| "exec cmp [l] = l"
| "exec cmp (l # r # runs) = exec cmp (pass cmp (l # r # runs))"
  by pat_completeness auto
termination
proof (relation "measure (\<lambda>(cmp, runs). length runs)")
  show "wf (measure (\<lambda>(cmp, runs). length runs))" by simp
next
  fix cmp :: "'a \<Rightarrow> 'a \<Rightarrow> jsnum" and l r :: "'a list" and runs :: "'a list list"
  have "length (pass cmp rs) \<le> length rs" for rs :: "'a list list"
    by (induction cmp rs rule: pass.induct) auto
  then have "length (pass cmp runs) \<le> length runs" .
  then show "((cmp, pass cmp (l # r # runs)), (cmp, l # r # runs))
             \<in> measure (\<lambda>(cmp, runs). length runs)"
    by simp
qed

definition merge_stable :: "'a list \<Rightarrow> ('a \<Rightarrow> 'a \<Rightarrow> jsnum) \<Rightarrow> 'a list" where
  "merge_stable xs cmp = exec cmp (map (\<lambda>x. [x]) xs)"

definition is_digit :: "char \<Rightarrow> bool" where
  "is_digit c = (48 \<le> (of_char c :: nat) \<and> (of_char c :: nat) \<le> 57)"

definition is_alpha :: "char \<Rightarrow> bool" where
  "is_alpha c = ((65 \<le> (of_char c :: nat) \<and> (of_char c :: nat) \<le> 90) \<or>
                 (97 \<le> (of_char c :: nat) \<and> (of_char c :: nat) \<le> 122))"

definition is_alphanum :: "char \<Rightarrow> bool" where
  "is_alphanum c = (is_alpha c \<or> is_digit c)"

definition digits_value :: "string \<Rightarrow> nat" where
  "digits_value ds = foldl (\<lambda>a c. 10 * a + (of_char c - 48)) 0 ds"

text \<open>
  Modelled from the spec: the float parser behind "quality = value of the \<open>q=\<close> parameter
  (parsed as a float)", ECMAScript's \<^verbatim>\<open>parseFloat\<close>, on decimal literals: leading white
  space, a sign, then \<^verbatim>\<open>Infinity\<close> or digits with an optional fraction and an optional
  exponent; the longest such prefix counts and anything else is not a number. The value is
  the rational the literal denotes.
\<close>

definition exponent_of :: "string \<Rightarrow> int" where
  "exponent_of s =
     (case s of
        [] \<Rightarrow> 0
      | e # r \<Rightarrow>
          if e = CHR ''e'' \<or> e = CHR ''E'' then
            (case r of
               [] \<Rightarrow> 0
             | g # r' \<Rightarrow>
                 if g = CHR ''-'' then
                   (if takeWhile is_digit r' = [] then 0
                    else - int (digits_value (takeWhile is_digit r')))
                 else if g = CHR ''+'' then int (digits_value (takeWhile is_digit r'))
                 else int (digits_value (takeWhile is_digit r)))
          else 0)"

definition unsigned_literal :: "string \<Rightarrow> jsnum" where
  "unsigned_literal s =
     (if take 8 s = ''Infinity'' then PosInfinity
      else
        let ip = takeWhile is_digit s;
            r1 = dropWhile is_digit s;
            fp = (case r1 of
                    [] \<Rightarrow> []
                  | d # r \<Rightarrow> if d = CHR ''.'' then takeWhile is_digit r else []);
            r2 = (case r1 of
                    [] \<Rightarrow> []
                  | d # r \<Rightarrow> if d = CHR ''.'' then dropWhile is_digit r else r1);
            m = of_nat (digits_value ip) + of_nat (digits_value fp) / 10 ^ length fp
        in if ip = [] \<and> fp = [] then NaN
           else Finite (m * 10 powi exponent_of r2))"

definition js_negate :: "jsnum \<Rightarrow> jsnum" where
  "js_negate n =
     (case n of
        NaN \<Rightarrow> NaN
      | NegInfinity \<Rightarrow> PosInfinity
      | Finite a \<Rightarrow> Finite (- a)
      | PosInfinity \<Rightarrow> NegInfinity)"

definition decimal_parseFloat :: "string \<Rightarrow> jsnum" where
  "decimal_parseFloat s =
     (case dropWhile is_space s of
        [] \<Rightarrow> NaN
      | c # r \<Rightarrow>
          if c = CHR ''-'' then js_negate (unsigned_literal r)
          else if c = CHR ''+'' then unsigned_literal r
          else unsigned_literal (c # r))"

text \<open>
  Modelled from the spec: \<open>parseBcp47\<close>, the external parser (package \<^verbatim>\<open>bcp47\<close>), which
  "returns null on any grammar violation; on success exposes \<open>language\<close>, optional
  \<open>script\<close>, optional \<open>region\<close>, ordered \<open>variant\<close> list, ordered \<open>extension\<close> list (each
  with an ordered subtag list), ordered \<open>privateuse\<close> list", written from the grammar of
  BCP47 (RFC 5646, section 2.1) on the subtags between the hyphens. A private-use-only
  tag and a grandfathered tag parse, with no primary language. Letter case is kept.
\<close>

definition to_lower :: "char \<Rightarrow> char" where
  "to_lower c =
     (if 65 \<le> (of_char c :: nat) \<and> (of_char c :: nat) \<le> 90
      then char_of ((of_char c :: nat) + 32) else c)"

definition alphas :: "nat \<Rightarrow> nat \<Rightarrow> string \<Rightarrow> bool" where
  "alphas lo hi t = (lo \<le> length t \<and> length t \<le> hi \<and> list_all is_alpha t)"

definition alphanums :: "nat \<Rightarrow> nat \<Rightarrow> string \<Rightarrow> bool" where
  "alphanums lo hi t = (lo \<le> length t \<and> length t \<le> hi \<and> list_all is_alphanum t)"

definition is_region :: "string \<Rightarrow> bool" where
  "is_region t = (alphas 2 2 t \<or> (length t = 3 \<and> list_all is_digit t))"

definition is_variant :: "string \<Rightarrow> bool" where
  "is_variant t =
     (alphanums 5 8 t \<or> (alphanums 4 4 t \<and> (case t of [] \<Rightarrow> False | c # _ \<Rightarrow> is_digit c)))"

definition is_x :: "string \<Rightarrow> bool" where
  "is_x t = (t = ''x'' \<or> t = ''X'')"

definition is_singleton :: "string \<Rightarrow> bool" where
  "is_singleton t = (alphanums 1 1 t \<and> \<not> is_x t)"

definition grandfathered :: "string list" where
  "grandfathered =
     [''en-gb-oed'', ''i-ami'', ''i-bnn'', ''i-default'', ''i-enochian'', ''i-hak'',
      ''i-klingon'', ''i-lux'', ''i-mingo'', ''i-navajo'', ''i-pwn'', ''i-tao'', ''i-tay'',
      ''i-tsu'', ''sgn-be-fr'', ''sgn-be-nl'', ''sgn-ch-de'',
      ''art-lojban'', ''cel-gaulish'', ''no-bok'', ''no-nyn'', ''zh-guoyu'', ''zh-hakka'',
      ''zh-min'', ''zh-min-nan'', ''zh-xiang'']"

definition no_language :: LanguageTag where
  "no_language =
     \<lparr>language = None, extlang = [], script = None, region = None, variant = [],
      extension = [], privateuse = []\<rparr>"

text \<open>The extensions at the head of the subtags: a singleton and its subtags, repeated.\<close>

function take_extensions :: "string list \<Rightarrow> (ExtensionItem list \<times> string list) option" where
  "take_extensions [] = Some ([], [])"
| "take_extensions (t # ts) =
     (if is_singleton t then
        (if takeWhile (alphanums 2 8) ts = [] then None
         else
           (case take_extensions (dropWhile (alphanums 2 8) ts) of
              None \<Rightarrow> None
            | Some (es, rest) \<Rightarrow>
                Some (\<lparr>item_singleton = t,
                       item_extension = takeWhile (alphanums 2 8) ts\<rparr> # es, rest)))
      else Some ([], t # ts))"
  by pat_completeness auto
termination
  by (relation "measure length") (auto simp: length_dropWhile_le less_Suc_eq_le)

text \<open>The private-use part that ends a tag: \<^verbatim>\<open>x\<close> and at least one subtag, or nothing.\<close>

definition take_privateuse :: "string list \<Rightarrow> string list option" where
  "take_privateuse ts =
     (case ts of
        [] \<Rightarrow> Some []
      | t # r \<Rightarrow> if is_x t \<and> r \<noteq> [] \<and> list_all (alphanums 1 8) r then Some r else None)"

definition after_language :: "string \<Rightarrow> string list \<Rightarrow> string list \<Rightarrow> LanguageTag option" where
  "after_language lang exts ts =
     (let scr = (case ts of [] \<Rightarrow> None | t # _ \<Rightarrow> if alphas 4 4 t then Some t else None);
          ts1 = (if scr = None then ts else tl ts);
          reg = (case ts1 of [] \<Rightarrow> None | t # _ \<Rightarrow> if is_region t then Some t else None);
          ts2 = (if reg = None then ts1 else tl ts1);
          vars = takeWhile is_variant ts2;
          ts3 = dropWhile is_variant ts2
      in (case take_extensions ts3 of
            None \<Rightarrow> None
          | Some (es, ts4) \<Rightarrow>
              (case take_privateuse ts4 of
                 None \<Rightarrow> None
               | Some pu \<Rightarrow>
                   Some \<lparr>language = Some lang, extlang = exts, script = scr, region = reg,
                         variant = vars, extension = es, privateuse = pu\<rparr>)))"

definition bcp47_langtag :: "string \<Rightarrow> LanguageTag option" where
  "bcp47_langtag s =
     (if map to_lower s \<in> set grandfathered then Some no_language
      else
        (case js_split CHR ''-'' s of
           [] \<Rightarrow> None
         | t # ts \<Rightarrow>
             if is_x t then
               (if ts \<noteq> [] \<and> list_all (alphanums 1 8) ts then Some no_language else None)
             else if alphas 2 3 t then
               after_language t (takeWhile (alphas 3 3) (take 3 ts))
                 (drop (length (takeWhile (alphas 3 3) (take 3 ts))) ts)
             else if alphas 4 8 t then after_language t [] ts
             else None))"

definition node_externals :: externals where
  "node_externals =
     \<lparr>bcp47_parse = bcp47_langtag, stable = merge_stable, parseFloat = decimal_parseFloat\<rparr>"

section \<open>Vocabulary of the properties\<close>

text \<open>
  The loops that count an index unfold without end under the simplifier; they are
  unfolded on request only.
\<close>

declare positional_loop.simps [simp del]
declare extension_inner_loop.simps [simp del]
declare extension_loop.simps [simp del]

text \<open>
  A tag specifies a category when it has a subtag there: a non-empty script or region, a
  variant, a private-use subtag, an extension with a subtag (an extension of a tag of the
  grammar has at least one).
\<close>

fun specifies :: "propname \<Rightarrow> 'a LanguageTag_scheme \<Rightarrow> bool" where
  "specifies Privateuse t = (privateuse t \<noteq> [])"
| "specifies Extension t = list_ex (\<lambda>e. item_extension e \<noteq> []) (extension t)"
| "specifies Variant t = (variant t \<noteq> [])"
| "specifies Region t = truthy_str (region t)"
| "specifies Script t = truthy_str (script t)"

text \<open>
  What one requested component adds to the result: nothing when its tag does not parse or
  its language has no bucket, and otherwise the values of the candidates of the bucket
  that pass the loop over the property names, in the order of the bucket.
\<close>

definition matches_of ::
  "externals \<Rightarrow> (string \<rightharpoonup> LanguageTagWithValue list) \<Rightarrow> Component \<Rightarrow> string list" where
  "matches_of X idx c =
     (case bcp47_parse X (tag c) of
        None \<Rightarrow> []
      | Some r \<Rightarrow>
          (case idx (to_key (language r)) of
             None \<Rightarrow> []
           | Some bucket \<Rightarrow> map value' (filter (\<lambda>d. props_loop props d r) bucket)))"

text \<open>The sort returns the elements it was given, whatever the comparator.\<close>

definition stable_permutes :: "externals \<Rightarrow> bool" where
  "stable_permutes X = (\<forall>xs cmp. mset (stable X xs cmp) = mset xs)"

text \<open>A tag string \<^verbatim>\<open>languages\<close> throws for: it does not parse, or parses with no language.\<close>

definition offending :: "externals \<Rightarrow> string \<Rightarrow> bool" where
  "offending X t =
     (case bcp47_parse X t of None \<Rightarrow> True | Some langtag \<Rightarrow> \<not> truthy_str (language langtag))"

text \<open>
  A tag string that parses with a primary language whose name is one of the inherited
  property names, and a tag string that ends the loop of \<^verbatim>\<open>languages\<close> with a throw.
\<close>

definition clashing :: "externals \<Rightarrow> string \<Rightarrow> bool" where
  "clashing X t =
     (case bcp47_parse X t of
        None \<Rightarrow> False
      | Some langtag \<Rightarrow>
          truthy_str (language langtag) \<and> inherited_key (to_key (language langtag)))"

definition stops :: "externals \<Rightarrow> string \<Rightarrow> bool" where
  "stops X t = (offending X t \<or> clashing X t)"

definition error_for :: "externals \<Rightarrow> string \<Rightarrow> error" where
  "error_for X t =
     (case bcp47_parse X t of
        None \<Rightarrow> InvalidTagError t
      | Some langtag \<Rightarrow>
          if \<not> truthy_str (language langtag) then UnsupportedTagError t
          else NotAFunctionError)"

text \<open>
  A requested component at which the loop of \<^verbatim>\<open>parse\<close> throws: its tag parses and its
  language is the name of an inherited property that the index does not have of its own.
\<close>

definition throws_on ::
  "externals \<Rightarrow> (string \<rightharpoonup> LanguageTagWithValue list) \<Rightarrow> Component \<Rightarrow> bool" where
  "throws_on X idx c =
     (case bcp47_parse X (tag c) of
        None \<Rightarrow> False
      | Some r \<Rightarrow>
          idx (to_key (language r)) = None \<and> inherited_key (to_key (language r)))"

text \<open>
  The index that a list of accepted tag strings describes: under a key, the parsed tags
  with that primary language, each with its string, in the order of the list; no
  property for a key without such a tag.
\<close>

definition entries_for :: "externals \<Rightarrow> string list \<Rightarrow> string \<Rightarrow> LanguageTagWithValue list" where
  "entries_for X tags k =
     map (\<lambda>t. with_value (the (bcp47_parse X t)) t)
       (filter (\<lambda>t. to_key (language (the (bcp47_parse X t))) = k) tags)"

definition index_of :: "externals \<Rightarrow> string list \<Rightarrow> (string \<rightharpoonup> LanguageTagWithValue list)" where
  "index_of X tags k = (if entries_for X tags k = [] then None else Some (entries_for X tags k))"

text \<open>
  A comparator is consistent on a set when it orders the set: no result is not-a-number,
  \<open>cmp a b\<close> is positive exactly when \<open>cmp b a\<close> is negative, and "not after" is
  transitive.
\<close>

definition consistent :: "('a \<Rightarrow> 'a \<Rightarrow> jsnum) \<Rightarrow> 'a set \<Rightarrow> bool" where
  "consistent cmp S =
     ((\<forall>a \<in> S. \<forall>b \<in> S. cmp a b \<noteq> NaN \<and> js_gt0 (cmp a b) = js_lt0 (cmp b a)) \<and>
      (\<forall>a \<in> S. \<forall>b \<in> S. \<forall>c \<in> S.
         js_le0 (cmp a b) \<and> js_le0 (cmp b c) \<longrightarrow> js_le0 (cmp a c)))"

text \<open>
  The contract of the external sort, "total order by compare, ties resolved by original
  position": for a comparator that is consistent on the elements of the array, the result
  has the same elements, no element is followed by one it has to come after, and the
  elements that tie with a given one are in their original order.
\<close>

definition stable_contract :: "externals \<Rightarrow> bool" where
  "stable_contract X =
     (\<forall>xs cmp. consistent cmp (set xs) \<longrightarrow>
        mset (stable X xs cmp) = mset xs \<and>
        sorted_wrt (\<lambda>a b. js_le0 (cmp a b)) (stable X xs cmp) \<and>
        (\<forall>a \<in> set xs.
           filter (\<lambda>b. js_le0 (cmp a b) \<and> js_le0 (cmp b a)) (stable X xs cmp) =
           filter (\<lambda>b. js_le0 (cmp a b) \<and> js_le0 (cmp b a)) xs))"

text \<open>A component whose quality is a finite number, and that number.\<close>

definition finite_quality :: "Component \<Rightarrow> bool" where
  "finite_quality c = (case quality c of Finite q \<Rightarrow> True | _ \<Rightarrow> False)"

definition quality_value :: "Component \<Rightarrow> rat" where
  "quality_value c = (case quality c of Finite q \<Rightarrow> q | _ \<Rightarrow> 0)"

text \<open>
  The quality as claim C4 words it, for comparison with \<open>weighted\<close>: the component's
  \<open>q=\<close> parameter is the first of its parameters (the pieces after the first \<^verbatim>\<open>;\<close>)
  that starts with \<^verbatim>\<open>q=\<close>; the quality is the float value of what follows \<^verbatim>\<open>q=\<close> there,
  and 1.0 when no parameter starts with \<^verbatim>\<open>q=\<close>.
\<close>

definition q_parameter :: "string \<Rightarrow> string option" where
  "q_parameter component =
     (case filter (\<lambda>p. take 2 p = ''q='') (tl (js_split CHR '';'' component)) of
        [] \<Rightarrow> None
      | p # _ \<Rightarrow> Some (drop 2 p))"

definition claimed_quality :: "externals \<Rightarrow> string \<Rightarrow> jsnum" where
  "claimed_quality X weightedLanguageRange =
     (case q_parameter (js_replace_ws weightedLanguageRange) of
        None \<Rightarrow> Finite 1
      | Some v \<Rightarrow> parseFloat X v)"

section \<open>Properties\<close>

subsection \<open>The loops, in closed form\<close>

lemma positional_loop_iff:
  "positional_loop d r i = (\<forall>j. i \<le> j \<and> j < length d \<longrightarrow> j < length r \<and> d ! j = r ! j)"
proof (induction d r i rule: positional_loop.induct)
  case (1 d r i)
  show ?case
  proof (cases "i < length d")
    case False
    then show ?thesis by (subst positional_loop.simps) auto
  next
    case True
    show ?thesis
    proof (cases "Some (d ! i) \<noteq> js_index r i")
      case True
      with \<open>i < length d\<close> show ?thesis
        by (subst positional_loop.simps) (auto simp: js_index_def split: if_splits)
    next
      case False
      then have eq: "i < length r" "d ! i = r ! i"
        by (auto simp: js_index_def split: if_splits)
      have "positional_loop d r i = positional_loop d r (i + 1)"
        using True False by (subst positional_loop.simps) simp
      also have "\<dots> = (\<forall>j. i + 1 \<le> j \<and> j < length d \<longrightarrow> j < length r \<and> d ! j = r ! j)"
        using "1.IH" [OF True] False by simp
      also have "\<dots> = (\<forall>j. i \<le> j \<and> j < length d \<longrightarrow> j < length r \<and> d ! j = r ! j)"
        using eq
        by (metis Suc_eq_plus1 Suc_leI le_neq_implies_less le_SucI nat_less_le not_less_eq_eq)
      finally show ?thesis .
    qed
  qed
qed

text \<open>From index 0 the positional loop asks that the defined array starts the requested one.\<close>

lemma positional_loop_take: "positional_loop d r 0 = (take (length d) r = d)"
proof
  assume "positional_loop d r 0"
  then have all: "\<And>j. j < length d \<Longrightarrow> j < length r \<and> d ! j = r ! j"
    by (simp add: positional_loop_iff)
  have len: "length d \<le> length r"
  proof (cases d)
    case Nil
    then show ?thesis by simp
  next
    case (Cons x xs)
    then have "length d - 1 < length r" using all [of "length d - 1"] by simp
    then show ?thesis by simp
  qed
  show "take (length d) r = d"
    by (rule nth_equalityI) (use len all in auto)
next
  assume t: "take (length d) r = d"
  then have len: "length d \<le> length r"
    by (metis length_take min.cobounded1)
  have "\<And>j. j < length d \<Longrightarrow> d ! j = r ! j"
    by (metis t nth_take)
  with len show "positional_loop d r 0"
    by (auto simp: positional_loop_iff)
qed

lemma extension_inner_loop_iff:
  "extension_inner_loop es ri ei =
     (\<forall>j. ei \<le> j \<and> j < length es \<longrightarrow>
        (\<exists>re. ri = Some re \<and> j < length (item_extension re) \<and> es ! j = item_extension re ! j))"
proof (induction es ri ei rule: extension_inner_loop.induct)
  case (1 es ri ei)
  show ?case
  proof (cases "ei < length es")
    case False
    then show ?thesis by (subst extension_inner_loop.simps) auto
  next
    case inb: True
    show ?thesis
    proof (cases ri)
      case None
      with inb show ?thesis by (subst extension_inner_loop.simps) auto
    next
      case (Some re)
      show ?thesis
      proof (cases "Some (es ! ei) \<noteq> js_index (item_extension re) ei")
        case True
        with inb Some show ?thesis
          by (subst extension_inner_loop.simps) (auto simp: js_index_def split: if_splits)
      next
        case False
        then have eq: "ei < length (item_extension re)" "es ! ei = item_extension re ! ei"
          by (auto simp: js_index_def split: if_splits)
        have "extension_inner_loop es ri ei = extension_inner_loop es ri (ei + 1)"
          using inb Some False by (subst extension_inner_loop.simps) simp
        also have "\<dots> = (\<forall>j. ei + 1 \<le> j \<and> j < length es \<longrightarrow>
            (\<exists>re. ri = Some re \<and> j < length (item_extension re) \<and> es ! j = item_extension re ! j))"
          using "1.IH" [OF inb Some] False by simp
        also have "\<dots> = (\<forall>j. ei \<le> j \<and> j < length es \<longrightarrow>
            (\<exists>re. ri = Some re \<and> j < length (item_extension re) \<and> es ! j = item_extension re ! j))"
          using eq Some
          by (metis Suc_eq_plus1 Suc_leI le_neq_implies_less le_SucI nat_less_le not_less_eq_eq)
        finally show ?thesis .
      qed
    qed
  qed
qed

lemma extension_loop_iff:
  "extension_loop d r i =
     (\<forall>k. i \<le> k \<and> k < length d \<longrightarrow>
        extension_inner_loop (item_extension (d ! k)) (js_index r k) 0)"
proof (induction d r i rule: extension_loop.induct)
  case (1 d r i)
  show ?case
  proof (cases "i < length d")
    case False
    then show ?thesis by (subst extension_loop.simps) auto
  next
    case inb: True
    show ?thesis
    proof (cases "extension_inner_loop (item_extension (d ! i)) (js_index r i) 0")
      case False
      with inb show ?thesis by (subst extension_loop.simps) auto
    next
      case True
      have "extension_loop d r i = extension_loop d r (i + 1)"
        using inb True by (subst extension_loop.simps) simp
      also have "\<dots> = (\<forall>k. i + 1 \<le> k \<and> k < length d \<longrightarrow>
          extension_inner_loop (item_extension (d ! k)) (js_index r k) 0)"
        using "1.IH" [OF inb] True by simp
      also have "\<dots> = (\<forall>k. i \<le> k \<and> k < length d \<longrightarrow>
          extension_inner_loop (item_extension (d ! k)) (js_index r k) 0)"
        using True
        by (metis Suc_eq_plus1 Suc_leI le_neq_implies_less le_SucI nat_less_le not_less_eq_eq)
      finally show ?thesis .
    qed
  qed
qed

lemma props_loop_all: "props_loop ps d r = list_all (\<lambda>p. prop_passes p d r) ps"
  by (induction ps) auto

lemma middle_loop_eq:
  "middle_loop bucket r result =
     result @ map value' (filter (\<lambda>d. props_loop props d r) bucket)"
  by (induction bucket arbitrary: result) auto

lemma outer_loop_eq:
  "outer_loop X idx cs result =
     (if list_ex (throws_on X idx) cs then Inl NotIterableError
      else Inr (result @ concat (map (matches_of X idx) cs)))"
proof (induction cs arbitrary: result)
  case Nil
  show ?case by simp
next
  case (Cons c cs)
  show ?case
  proof (cases "bcp47_parse X (tag c)")
    case None
    then have "matches_of X idx c = []" "\<not> throws_on X idx c"
      by (simp_all add: matches_of_def throws_on_def)
    with None show ?thesis by (simp add: Cons.IH)
  next
    case (Some r)
    show ?thesis
    proof (cases "idx (to_key (language r))")
      case None
      show ?thesis
      proof (cases "inherited_key (to_key (language r))")
        case True
        with None Some have "throws_on X idx c" by (simp add: throws_on_def)
        with None Some True show ?thesis by (simp add: js_lookup_def)
      next
        case False
        with None Some have "matches_of X idx c = []" "\<not> throws_on X idx c"
          by (simp_all add: matches_of_def throws_on_def)
        with None Some False show ?thesis by (simp add: Cons.IH js_lookup_def)
      qed
    next
      case bucket: (Some bucket)
      with Some have "matches_of X idx c = map value' (filter (\<lambda>d. props_loop props d r) bucket)"
        "\<not> throws_on X idx c"
        by (simp_all add: matches_of_def throws_on_def)
      with Some bucket show ?thesis
        by (simp add: Cons.IH js_lookup_def middle_loop_eq)
    qed
  qed
qed

lemma parse_eq:
  "fst (parse X pl a) =
     (if \<not> truthy_str pl then Inr [defaultLanguageTag a]
      else if list_ex (throws_on X (languageTagsWithValues a))
                (parseAndSortLanguageTags X (the pl))
      then Inl NotIterableError
      else if concat (map (matches_of X (languageTagsWithValues a))
                       (parseAndSortLanguageTags X (the pl))) = []
      then Inr [defaultLanguageTag a]
      else Inr (map Some (concat (map (matches_of X (languageTagsWithValues a))
                                   (parseAndSortLanguageTags X (the pl))))))"
  by (simp add: parse_def outer_loop_eq Let_def)

lemma parse_state: "snd (parse X pl a) = a"
  by (simp add: parse_def Let_def split: sum.splits)

lemma get_eq:
  "fst (get X pl a) =
     (case fst (parse X pl a) of
        Inl e \<Rightarrow> Inl e
      | Inr r \<Rightarrow> Inr (case js_index r 0 of None \<Rightarrow> None | Some v \<Rightarrow> v))"
  by (cases "parse X pl a") (simp add: get_def split: sum.splits)

lemma get_state: "snd (get X pl a) = a"
  using parse_state [of X pl a]
  by (cases "parse X pl a") (simp add: get_def split: sum.splits)

subsection \<open>\<^verbatim>\<open>languages\<close>, in closed form\<close>

text \<open>
  The loop of \<^verbatim>\<open>languages\<close> never gives the index an own property under an inherited
  name, so on an index without such properties it stops at the first tag that does not
  parse, has no language, or has a language of an inherited name.
\<close>

lemma forEach_languages_eq:
  assumes "\<forall>k. inherited_key k \<longrightarrow> idx k = None"
  shows "forEach_languages X tags idx =
     ((case find (stops X) tags of
         None \<Rightarrow> None
       | Some t \<Rightarrow> Some (error_for X t)),
      (\<lambda>k. case idx k of
             None \<Rightarrow> index_of X (takeWhile (\<lambda>t. \<not> stops X t) tags) k
           | Some b \<Rightarrow> Some (b @ entries_for X (takeWhile (\<lambda>t. \<not> stops X t) tags) k)))"
  using assms
proof (induction tags arbitrary: idx)
  case Nil
  show ?case
    by (auto simp: index_of_def entries_for_def fun_eq_iff split: option.splits)
next
  case (Cons t tags)
  have same: "(\<lambda>k. case idx k of None \<Rightarrow> index_of X [] k
                    | Some b \<Rightarrow> Some (b @ entries_for X [] k)) = idx"
    by (auto simp: index_of_def entries_for_def fun_eq_iff split: option.splits)
  show ?case
  proof (cases "bcp47_parse X t")
    case None
    then have st: "stops X t" and er: "error_for X t = InvalidTagError t"
      by (simp_all add: stops_def offending_def error_for_def)
    have tw: "takeWhile (\<lambda>t. \<not> stops X t) (t # tags) = []" using st by simp
    have fd: "find (stops X) (t # tags) = Some t" using st by simp
    show ?thesis unfolding tw fd same using None by (simp add: er)
  next
    case (Some lt)
    show ?thesis
    proof (cases "truthy_str (language lt)")
      case False
      with Some have st: "stops X t" and er: "error_for X t = UnsupportedTagError t"
        by (simp_all add: stops_def offending_def error_for_def)
      have tw: "takeWhile (\<lambda>t. \<not> stops X t) (t # tags) = []" using st by simp
      have fd: "find (stops X) (t # tags) = Some t" using st by simp
      show ?thesis unfolding tw fd same using Some False by (simp add: er)
    next
      case True
      show ?thesis
      proof (cases "inherited_key (to_key (language lt))")
        case inh: True
        with Some True have st: "stops X t" and er: "error_for X t = NotAFunctionError"
          by (simp_all add: stops_def clashing_def error_for_def)
        have lk: "js_lookup idx (to_key (language lt)) = Inherited"
          using inh Cons.prems by (simp add: js_lookup_def)
        have tw: "takeWhile (\<lambda>t. \<not> stops X t) (t # tags) = []" using st by simp
        have fd: "find (stops X) (t # tags) = Some t" using st by simp
        show ?thesis unfolding tw fd same using Some True by (simp add: er lk Let_def)
      next
        case False
        with Some True have ns: "\<not> stops X t"
          by (simp add: stops_def offending_def clashing_def)
        let ?k = "to_key (language lt)" and ?e = "with_value lt t"
        let ?idx' = "case idx ?k of None \<Rightarrow> idx(?k \<mapsto> [?e]) | Some b \<Rightarrow> idx(?k \<mapsto> b @ [?e])"
        have step: "forEach_languages X (t # tags) idx = forEach_languages X tags ?idx'"
          using Some True False
          by (simp add: Let_def js_lookup_def split: option.splits)
        have inv: "\<forall>k. inherited_key k \<longrightarrow> ?idx' k = None"
          using Cons.prems False by (auto split: option.splits)
        have "(\<lambda>k. case ?idx' k of
                 None \<Rightarrow> index_of X (takeWhile (\<lambda>t. \<not> stops X t) tags) k
               | Some b \<Rightarrow> Some (b @ entries_for X (takeWhile (\<lambda>t. \<not> stops X t) tags) k)) =
              (\<lambda>k. case idx k of
                 None \<Rightarrow> index_of X (takeWhile (\<lambda>t. \<not> stops X t) (t # tags)) k
               | Some b \<Rightarrow> Some (b @ entries_for X (takeWhile (\<lambda>t. \<not> stops X t) (t # tags)) k))"
          using ns Some
          by (auto simp: index_of_def entries_for_def fun_eq_iff split: option.splits)
        with ns show ?thesis
          unfolding step Cons.IH [OF inv] by simp
      qed
    qed
  qed
qed

lemma languages_eq:
  "languages X tags a =
     (if tags = [] then (Some ConfigurationError, a)
      else
        (case find (stops X) tags of
           None \<Rightarrow>
             (None, a\<lparr>languageTagsWithValues := index_of X tags,
                       defaultLanguageTag := Some (tags ! 0)\<rparr>)
         | Some t \<Rightarrow>
             (Some (error_for X t),
              a\<lparr>languageTagsWithValues :=
                   index_of X (takeWhile (\<lambda>t. \<not> stops X t) tags)\<rparr>)))"
proof -
  have fe: "forEach_languages X tags Map.empty =
     ((case find (stops X) tags of None \<Rightarrow> None | Some t \<Rightarrow> Some (error_for X t)),
      index_of X (takeWhile (\<lambda>t. \<not> stops X t) tags))"
    by (simp add: forEach_languages_eq)
  have len: "(length tags < 1) = (tags = [])" by (cases tags) auto
  have first: "tags \<noteq> [] \<Longrightarrow> js_index tags 0 = Some (tags ! 0)"
    by (simp add: js_index_def)
  show ?thesis
  proof (cases "find (stops X) tags")
    case None
    then have tw: "takeWhile (\<lambda>t. \<not> stops X t) tags = tags"
      by (auto simp: find_None_iff)
    show ?thesis
      unfolding languages_def len fe tw using None first by simp
  next
    case (Some t)
    then show ?thesis
      unfolding languages_def len fe by simp
  qed
qed

lemma languages_default:
  assumes "fst (languages X tags a) = None"
  shows "tags \<noteq> [] \<and> defaultLanguageTag (snd (languages X tags a)) = Some (tags ! 0)"
  using assms
  by (auto simp: languages_eq split: option.splits if_splits)

subsection \<open>No priority list\<close>

text \<open>
  Claim C1. After a call of \<^verbatim>\<open>languages\<close> with the list \<open>tags\<close> that returned normally,
  \<^verbatim>\<open>parse\<close> (\<open>resolveAll\<close>) of a priority list that is \<^verbatim>\<open>null\<close>, \<^verbatim>\<open>undefined\<close> or the
  empty string returns (and does not throw) the one-element list of \<open>tags[0]\<close>, which is
  the default tag, and \<^verbatim>\<open>get\<close> (\<open>resolve\<close>) of \<^verbatim>\<open>null\<close> returns \<open>tags[0]\<close>. The list \<open>tags\<close> is not empty then,
  so \<open>tags ! 0\<close> is its first string.
\<close>

theorem default_without_priority_list:
  assumes "fst (languages X tags a) = None"
    and "languagePriorityList = None \<or> languagePriorityList = Some []"
  shows "tags \<noteq> [] \<and>
         fst (parse X languagePriorityList (snd (languages X tags a))) =
           Inr [Some (tags ! 0)] \<and>
         fst (get X None (snd (languages X tags a))) = Inr (Some (tags ! 0))"
  using languages_default [OF assms(1)] assms(2)
  by (auto simp: parse_eq get_eq truthy_str_def js_index_def)

theorem default_without_priority_list_witness:
  "fst (languages node_externals [''en-US'', ''fr-FR''] module_create) = None \<and>
   fst (parse node_externals (Some [])
          (snd (languages node_externals [''en-US'', ''fr-FR''] module_create))) =
     Inr [Some ''en-US''] \<and>
   fst (get node_externals None
          (snd (languages node_externals [''en-US'', ''fr-FR''] module_create))) =
     Inr (Some ''en-US'')"
proof -
  have ok: "fst (languages node_externals [''en-US'', ''fr-FR''] module_create) = None"
    by code_simp
  show ?thesis
    using ok default_without_priority_list [OF ok, of "Some []"] by simp
qed

subsection \<open>Specificity\<close>

lemma props_all: "(\<forall>q. P q) = list_all P props"
proof
  assume "list_all P props"
  then have "P q" for q by (cases q) (simp_all add: props_def)
  then show "\<forall>q. P q" by simp
qed (simp add: list_all_iff)

lemma too_specific_fails:
  assumes "specifies p d" and "\<not> specifies p r"
  shows "\<not> prop_passes p d r"
proof (cases p)
  case Privateuse
  with assms show ?thesis by (simp add: truthy_arr_def positional_loop_take)
next
  case Variant
  with assms show ?thesis by (simp add: truthy_arr_def positional_loop_take)
next
  case Region
  with assms show ?thesis by simp
next
  case Script
  with assms show ?thesis by simp
next
  case Extension
  with assms obtain e where e: "e \<in> set (extension d)" "item_extension e \<noteq> []"
    by (auto simp: list_ex_iff)
  then obtain k where k: "k < length (extension d)" "extension d ! k = e"
    by (auto simp: in_set_conv_nth)
  from Extension assms(2) have none: "\<And>x. x \<in> set (extension r) \<Longrightarrow> item_extension x = []"
    by (auto simp: list_ex_iff)
  have "\<not> extension_inner_loop (item_extension e) (js_index (extension r) k) 0"
    using e(2) none
    by (auto simp: extension_inner_loop_iff js_index_def split: if_splits)
  with k have "\<not> extension_loop (extension d) (extension r) 0"
    by (auto simp: extension_loop_iff)
  with Extension show ?thesis by (simp add: truthy_arr_def)
qed

lemma plain_passes:
  assumes "\<forall>q. \<not> specifies q d"
  shows "prop_passes p d r"
proof (cases p)
  case Privateuse
  with assms [rule_format, of Privateuse] show ?thesis
    by (simp add: truthy_arr_def positional_loop_take)
next
  case Variant
  with assms [rule_format, of Variant] show ?thesis
    by (simp add: truthy_arr_def positional_loop_take)
next
  case Region
  with assms [rule_format, of Region] show ?thesis by simp
next
  case Script
  with assms [rule_format, of Script] show ?thesis by simp
next
  case Extension
  from assms [rule_format, of Extension]
  have "\<And>x. x \<in> set (extension d) \<Longrightarrow> item_extension x = []"
    by (auto simp: list_ex_iff)
  then have "extension_loop (extension d) (extension r) 0"
    by (auto simp: extension_loop_iff extension_inner_loop_iff)
  with Extension show ?thesis by (simp add: truthy_arr_def)
qed

lemma too_specific_rejected:
  "specifies p d \<Longrightarrow> \<not> specifies p r \<Longrightarrow> \<not> props_loop props d r"
  using too_specific_fails [of p d r]
  by (cases p) (auto simp: props_loop_all props_def)

lemma plain_accepted: "\<forall>q. \<not> specifies q d \<Longrightarrow> props_loop props d r"
  using plain_passes [of d _ r] by (simp add: props_loop_all list_all_iff)

lemma parse_elements:
  assumes "fst (parse X pl a) = Inr res" and "v \<in> set res"
    and "res \<noteq> [defaultLanguageTag a]"
  shows "\<exists>c \<in> set (parseAndSortLanguageTags X (the pl)). \<exists>r bucket.
           bcp47_parse X (tag c) = Some r \<and>
           languageTagsWithValues a (to_key (language r)) = Some bucket \<and>
           (\<exists>d \<in> set bucket. v = Some (value' d) \<and> props_loop props d r)"
proof -
  from assms have "v \<in> Some ` set (concat (map (matches_of X (languageTagsWithValues a))
                       (parseAndSortLanguageTags X (the pl))))"
    by (auto simp: parse_eq split: if_splits)
  then obtain c w where c: "c \<in> set (parseAndSortLanguageTags X (the pl))"
    and w: "w \<in> set (matches_of X (languageTagsWithValues a) c)" "v = Some w"
    by auto
  obtain r where r: "bcp47_parse X (tag c) = Some r"
    using w(1) by (cases "bcp47_parse X (tag c)") (auto simp: matches_of_def)
  obtain bucket where b: "languageTagsWithValues a (to_key (language r)) = Some bucket"
    using w(1) r
    by (cases "languageTagsWithValues a (to_key (language r))") (auto simp: matches_of_def)
  have "w \<in> set (map value' (filter (\<lambda>d. props_loop props d r) bucket))"
    using w(1) r b by (simp add: matches_of_def)
  with c w(2) r b show ?thesis by fastforce
qed

text \<open>
  Claim C2. When the supported tag \<open>d\<close> specifies a category (private use, extension,
  variant, region or script) that the requested tag \<open>r\<close> does not specify, the loop over
  the property names rejects \<open>d\<close>, and the loop over the bucket pushes nothing for it.
  A supported tag that specifies no category passes for every requested tag, and its
  value is pushed. For the whole of \<^verbatim>\<open>parse\<close>: unless the result it returns is the default
  tag alone, each of its elements is the value of a candidate of the bucket of a requested tag that
  specifies every category the candidate specifies. So a candidate that is too specific
  for a requested tag is never returned as a match of that tag; it can still be returned
  as the default tag, as in the claim's example of \<open>zh-Hant\<close> requested as \<open>zh\<close>.
\<close>

theorem specificity:
  fixes d :: LanguageTagWithValue and r :: LanguageTag
  shows
  "(specifies p d \<and> \<not> specifies p r \<longrightarrow>
      \<not> props_loop props d r \<and>
      middle_loop (d # bucket) r result = middle_loop bucket r result) \<and>
   ((\<forall>q. \<not> specifies q d) \<longrightarrow>
      props_loop props d r \<and>
      middle_loop (d # bucket) r result = middle_loop bucket r (result @ [value' d])) \<and>
   (fst (parse X pl a) = Inr res \<longrightarrow>
      res = [defaultLanguageTag a] \<or>
      (\<forall>v \<in> set res.
         \<exists>c \<in> set (parseAndSortLanguageTags X (the pl)). \<exists>r' bucket'.
           bcp47_parse X (tag c) = Some r' \<and>
           languageTagsWithValues a (to_key (language r')) = Some bucket' \<and>
           (\<exists>d' \<in> set bucket'. v = Some (value' d') \<and>
              (\<forall>q. specifies q d' \<longrightarrow> specifies q r'))))"
proof (intro conjI impI)
  assume "specifies p d \<and> \<not> specifies p r"
  then show "\<not> props_loop props d r" using too_specific_rejected by blast
  then show "middle_loop (d # bucket) r result = middle_loop bucket r result" by simp
next
  assume "\<forall>q. \<not> specifies q d"
  then show "props_loop props d r" by (rule plain_accepted)
  then show "middle_loop (d # bucket) r result = middle_loop bucket r (result @ [value' d])"
    by simp
next
  assume ret: "fst (parse X pl a) = Inr res"
  show "res = [defaultLanguageTag a] \<or>
      (\<forall>v \<in> set res.
         \<exists>c \<in> set (parseAndSortLanguageTags X (the pl)). \<exists>r' bucket'.
           bcp47_parse X (tag c) = Some r' \<and>
           languageTagsWithValues a (to_key (language r')) = Some bucket' \<and>
           (\<exists>d' \<in> set bucket'. v = Some (value' d') \<and>
              (\<forall>q. specifies q d' \<longrightarrow> specifies q r')))"
  proof (cases "res = [defaultLanguageTag a]")
    case True
    then show ?thesis by simp
  next
    case False
    have "\<exists>c \<in> set (parseAndSortLanguageTags X (the pl)). \<exists>r' bucket'.
         bcp47_parse X (tag c) = Some r' \<and>
         languageTagsWithValues a (to_key (language r')) = Some bucket' \<and>
         (\<exists>d' \<in> set bucket'. v = Some (value' d') \<and>
            (\<forall>q. specifies q d' \<longrightarrow> specifies q r'))"
      if "v \<in> set res" for v
    proof -
      from parse_elements [OF ret that False] obtain c r' bucket' d'
        where "c \<in> set (parseAndSortLanguageTags X (the pl))"
          "bcp47_parse X (tag c) = Some r'"
          "languageTagsWithValues a (to_key (language r')) = Some bucket'"
          "d' \<in> set bucket'" "v = Some (value' d')" "props_loop props d' r'"
        by blast
      moreover from this(6) have "\<forall>q. specifies q d' \<longrightarrow> specifies q r'"
        using too_specific_rejected by blast
      ultimately show ?thesis by blast
    qed
    then show ?thesis by blast
  qed
qed

theorem specificity_witness:
  "specifies Script (with_value (the (bcp47_parse node_externals ''zh-Hant'')) ''zh-Hant'') \<and>
   \<not> specifies Script (the (bcp47_parse node_externals ''zh'')) \<and>
   \<not> props_loop props (with_value (the (bcp47_parse node_externals ''zh-Hant'')) ''zh-Hant'')
        (the (bcp47_parse node_externals ''zh'')) \<and>
   fst (parse node_externals (Some ''zh'')
          (snd (languages node_externals [''zh-Hant''] module_create))) = Inr [Some ''zh-Hant''] \<and>
   (\<forall>q. \<not> specifies q (with_value (the (bcp47_parse node_externals ''en'')) ''en'')) \<and>
   props_loop props (with_value (the (bcp47_parse node_externals ''en'')) ''en'')
     (the (bcp47_parse node_externals ''en-US'')) \<and>
   fst (parse node_externals (Some ''en-US'')
          (snd (languages node_externals [''en''] module_create))) = Inr [Some ''en''] \<and>
   fst (parse node_externals (Some ''en'')
          (snd (languages node_externals [''en'', ''en-GB''] module_create))) = Inr [Some ''en'']"
proof -
  let ?zh_Hant = "with_value (the (bcp47_parse node_externals ''zh-Hant'')) ''zh-Hant''"
  let ?zh = "the (bcp47_parse node_externals ''zh'')"
  let ?en = "with_value (the (bcp47_parse node_externals ''en'')) ''en''"
  let ?en_US = "the (bcp47_parse node_externals ''en-US'')"
  have h1: "specifies Script ?zh_Hant" by code_simp
  have h2: "\<not> specifies Script ?zh" by code_simp
  have h3: "\<forall>q. \<not> specifies q ?en" unfolding props_all by code_simp
  have c1: "\<not> props_loop props ?zh_Hant ?zh"
    using specificity [where p = Script and d = "?zh_Hant" and r = "?zh"] h1 h2 by blast
  have c2: "props_loop props ?en ?en_US"
    using specificity [where d = "?en" and r = "?en_US"] h3 by blast
  have e1: "fst (parse node_externals (Some ''zh'')
          (snd (languages node_externals [''zh-Hant''] module_create))) = Inr [Some ''zh-Hant'']"
    by code_simp
  have e2: "fst (parse node_externals (Some ''en-US'')
          (snd (languages node_externals [''en''] module_create))) = Inr [Some ''en'']"
    by code_simp
  have e3: "fst (parse node_externals (Some ''en'')
          (snd (languages node_externals [''en'', ''en-GB''] module_create))) = Inr [Some ''en'']"
    by code_simp
  from h1 h2 h3 c1 c2 e1 e2 e3 show ?thesis by blast
qed

subsection \<open>The instance of the sort meets the contract\<close>

lemma mset_merge_by: "mset (merge_by cmp xs ys) = mset xs + mset ys"
  by (induction cmp xs ys rule: merge_by.induct) auto

lemma set_merge_by: "set (merge_by cmp xs ys) = set xs \<union> set ys"
  by (metis mset_merge_by set_mset_mset set_mset_union)

lemma mset_pass: "mset (concat (pass cmp runs)) = mset (concat runs)"
  by (induction cmp runs rule: pass.induct) (auto simp: mset_merge_by)

lemma mset_exec: "mset (exec cmp runs) = mset (concat runs)"
proof (induction cmp runs rule: exec.induct)
  case (3 cmp l r runs)
  have "mset (exec cmp (l # r # runs)) = mset (concat (pass cmp (l # r # runs)))"
    using 3 by simp
  also have "\<dots> = mset (concat (l # r # runs))" by (rule mset_pass)
  finally show ?case .
qed simp_all

lemma concat_singletons: "concat (map (\<lambda>x. [x]) xs) = xs"
  by (induction xs) auto

lemma mset_merge_stable: "mset (merge_stable xs cmp) = mset xs"
  by (simp add: merge_stable_def mset_exec concat_singletons)

lemma node_stable_permutes: "stable_permutes node_externals"
  by (simp add: stable_permutes_def node_externals_def mset_merge_stable)

lemma sorted_set:
  "stable_permutes X \<Longrightarrow> set (parseAndSortLanguageTags X s) = set (weighted_tags X s)"
  unfolding stable_permutes_def parseAndSortLanguageTags_def
  by (metis set_mset_mset)

lemma js_not_le0: "x \<noteq> NaN \<Longrightarrow> \<not> js_le0 x \<Longrightarrow> js_gt0 x"
  by (cases x) auto

lemma js_lt0_le0: "js_lt0 x \<Longrightarrow> js_le0 x"
  by (cases x) auto

lemma js_gt0_not_lt0: "js_gt0 x \<Longrightarrow> \<not> js_lt0 x"
  by (cases x) auto

lemma consistent_total:
  assumes "consistent cmp S" "a \<in> S" "b \<in> S" "\<not> js_le0 (cmp a b)"
  shows "js_le0 (cmp b a)"
proof -
  from assms have "cmp a b \<noteq> NaN" and sym: "js_gt0 (cmp a b) = js_lt0 (cmp b a)"
    unfolding consistent_def by blast+
  then have "js_gt0 (cmp a b)" using assms(4) by (simp add: js_not_le0)
  with sym have "js_lt0 (cmp b a)" by simp
  then show ?thesis by (rule js_lt0_le0)
qed

lemma consistent_refl:
  assumes "consistent cmp S" "a \<in> S"
  shows "js_le0 (cmp a a)"
proof (rule ccontr)
  assume n: "\<not> js_le0 (cmp a a)"
  from assms have "cmp a a \<noteq> NaN" and sym: "js_gt0 (cmp a a) = js_lt0 (cmp a a)"
    unfolding consistent_def by blast+
  then have "js_gt0 (cmp a a)" using n by (simp add: js_not_le0)
  with sym js_gt0_not_lt0 show False by blast
qed

lemma consistent_trans:
  assumes "consistent cmp S" "a \<in> S" "b \<in> S" "c \<in> S"
    "js_le0 (cmp a b)" "js_le0 (cmp b c)"
  shows "js_le0 (cmp a c)"
  using assms unfolding consistent_def by blast

lemma sorted_merge_by:
  "consistent cmp S \<Longrightarrow> set xs \<subseteq> S \<Longrightarrow> set ys \<subseteq> S \<Longrightarrow>
         sorted_wrt (\<lambda>a b. js_le0 (cmp a b)) xs \<Longrightarrow>
         sorted_wrt (\<lambda>a b. js_le0 (cmp a b)) ys \<Longrightarrow>
         sorted_wrt (\<lambda>a b. js_le0 (cmp a b)) (merge_by cmp xs ys)"
proof (induction cmp xs ys rule: merge_by.induct)
  case (3 cmp x xs y ys)
  from "3.prems" have c: "consistent cmp S" by simp
  from "3.prems" have mem: "x \<in> S" "y \<in> S" "set xs \<subseteq> S" "set ys \<subseteq> S" by auto
  show ?case
  proof (cases "js_le0 (cmp x y)")
    case True
    have "js_le0 (cmp x z)" if "z \<in> set ys" for z
      using consistent_trans [OF c mem(1,2) _ True, of z] "3.prems" that mem by auto
    with True "3.prems" "3.IH"(1) [OF True c] mem show ?thesis
      by (auto simp: set_merge_by)
  next
    case False
    then have yx: "js_le0 (cmp y x)"
      using consistent_total [OF c mem(1,2)] by simp
    have "js_le0 (cmp y z)" if "z \<in> set xs" for z
      using consistent_trans [OF c mem(2,1) _ yx, of z] "3.prems" that mem by auto
    with False yx "3.prems" "3.IH"(2) [OF False c] mem show ?thesis
      by (auto simp: set_merge_by)
  qed
qed simp_all

lemma filter_merge_by:
  "consistent cmp S \<Longrightarrow> a \<in> S \<Longrightarrow> set xs \<subseteq> S \<Longrightarrow> set ys \<subseteq> S \<Longrightarrow>
         sorted_wrt (\<lambda>a b. js_le0 (cmp a b)) xs \<Longrightarrow>
         filter (\<lambda>b. js_le0 (cmp a b) \<and> js_le0 (cmp b a)) (merge_by cmp xs ys) =
         filter (\<lambda>b. js_le0 (cmp a b) \<and> js_le0 (cmp b a)) xs @
         filter (\<lambda>b. js_le0 (cmp a b) \<and> js_le0 (cmp b a)) ys"
proof (induction cmp xs ys rule: merge_by.induct)
  case (3 cmp x xs y ys)
  from "3.prems" have c: "consistent cmp S" and a: "a \<in> S" by simp_all
  let ?P = "\<lambda>b. js_le0 (cmp a b) \<and> js_le0 (cmp b a)"
  from "3.prems" have mem: "x \<in> S" "y \<in> S" "set xs \<subseteq> S" "set ys \<subseteq> S" by auto
  show ?case
  proof (cases "js_le0 (cmp x y)")
    case True
    with "3.IH"(1) [OF True c a] "3.prems" mem show ?thesis by auto
  next
    case False
    have ih: "filter ?P (merge_by cmp (x # xs) ys) = filter ?P (x # xs) @ filter ?P ys"
      using "3.IH"(2) [OF False c a] "3.prems" mem by auto
    show ?thesis
    proof (cases "?P y")
      case ny: False
      with False ih show ?thesis by auto
    next
      case py: True
      have none: "\<not> ?P z" if z: "z \<in> set (x # xs)" for z
      proof
        assume pz: "?P z"
        from z mem have zS: "z \<in> S" by auto
        have xz: "js_le0 (cmp x z)"
          using z "3.prems"(5) consistent_refl [OF c mem(1)] by auto
        have "js_le0 (cmp z y)"
          using consistent_trans [OF c zS a mem(2)] pz py by blast
        with xz have "js_le0 (cmp x y)"
          using consistent_trans [OF c mem(1) zS mem(2)] by blast
        with False show False by simp
      qed
      then have "filter ?P (x # xs) = []"
        by (simp only: filter_empty_conv) blast
      with False py ih show ?thesis by simp
    qed
  qed
qed simp_all

lemma pass_runs:
  "consistent cmp S \<Longrightarrow>
   \<forall>r \<in> set runs. set r \<subseteq> S \<and> sorted_wrt (\<lambda>a b. js_le0 (cmp a b)) r \<Longrightarrow>
         \<forall>r \<in> set (pass cmp runs). set r \<subseteq> S \<and> sorted_wrt (\<lambda>a b. js_le0 (cmp a b)) r"
proof (induction cmp runs rule: pass.induct)
  case (1 cmp l r runs)
  from "1.prems" have c: "consistent cmp S" by simp
  from "1.prems" have "set (merge_by cmp l r) \<subseteq> S"
    "sorted_wrt (\<lambda>a b. js_le0 (cmp a b)) (merge_by cmp l r)"
    using sorted_merge_by [OF c, of l r] by (auto simp: set_merge_by)
  with 1 show ?case by auto
qed simp_all

lemma filter_pass:
  "consistent cmp S \<Longrightarrow> a \<in> S \<Longrightarrow>
   \<forall>r \<in> set runs. set r \<subseteq> S \<and> sorted_wrt (\<lambda>a b. js_le0 (cmp a b)) r \<Longrightarrow>
         filter (\<lambda>b. js_le0 (cmp a b) \<and> js_le0 (cmp b a)) (concat (pass cmp runs)) =
         filter (\<lambda>b. js_le0 (cmp a b) \<and> js_le0 (cmp b a)) (concat runs)"
proof (induction cmp runs rule: pass.induct)
  case (1 cmp l r runs)
  from "1.prems" have c: "consistent cmp S" and a: "a \<in> S" by simp_all
  from "1.prems" have "filter (\<lambda>b. js_le0 (cmp a b) \<and> js_le0 (cmp b a)) (merge_by cmp l r) =
      filter (\<lambda>b. js_le0 (cmp a b) \<and> js_le0 (cmp b a)) l @
      filter (\<lambda>b. js_le0 (cmp a b) \<and> js_le0 (cmp b a)) r"
    using filter_merge_by [OF c a, of l r] by auto
  with 1 show ?case by auto
qed simp_all

lemma exec_runs:
  "consistent cmp S \<Longrightarrow> a \<in> S \<Longrightarrow>
   \<forall>r \<in> set runs. set r \<subseteq> S \<and> sorted_wrt (\<lambda>a b. js_le0 (cmp a b)) r \<Longrightarrow>
         sorted_wrt (\<lambda>a b. js_le0 (cmp a b)) (exec cmp runs) \<and>
         filter (\<lambda>b. js_le0 (cmp a b) \<and> js_le0 (cmp b a)) (exec cmp runs) =
         filter (\<lambda>b. js_le0 (cmp a b) \<and> js_le0 (cmp b a)) (concat runs)"
proof (induction cmp runs rule: exec.induct)
  case (3 cmp l r runs)
  from "3.prems" have c: "consistent cmp S" and a: "a \<in> S" by simp_all
  have runs': "\<forall>q \<in> set (pass cmp (l # r # runs)).
      set q \<subseteq> S \<and> sorted_wrt (\<lambda>a b. js_le0 (cmp a b)) q"
    by (rule pass_runs [OF c "3.prems"(3)])
  have f: "filter (\<lambda>b. js_le0 (cmp a b) \<and> js_le0 (cmp b a)) (concat (pass cmp (l # r # runs))) =
      filter (\<lambda>b. js_le0 (cmp a b) \<and> js_le0 (cmp b a)) (concat (l # r # runs))"
    by (rule filter_pass [OF c a "3.prems"(3)])
  from "3.IH" [OF c a runs'] f show ?case
    by (simp del: pass.simps)
qed simp_all

lemma node_stable_contract: "stable_contract node_externals"
  unfolding stable_contract_def
proof (intro allI impI)
  fix xs :: "Component list" and cmp
  assume c: "consistent cmp (set xs)"
  have st: "stable node_externals xs cmp = exec cmp (map (\<lambda>x. [x]) xs)"
    by (simp add: node_externals_def merge_stable_def)
  have runs: "\<forall>r \<in> set (map (\<lambda>x. [x]) xs).
      set r \<subseteq> set xs \<and> sorted_wrt (\<lambda>a b. js_le0 (cmp a b)) r"
    by auto
  have m: "mset (stable node_externals xs cmp) = mset xs"
    by (simp add: node_externals_def mset_merge_stable)
  have s: "sorted_wrt (\<lambda>a b. js_le0 (cmp a b)) (stable node_externals xs cmp)"
  proof (cases xs)
    case Nil
    then show ?thesis by (simp add: node_externals_def merge_stable_def)
  next
    case (Cons x xs')
    then have "x \<in> set xs" by simp
    from exec_runs [OF c this runs] show ?thesis by (simp add: st)
  qed
  have f: "\<forall>a \<in> set xs.
      filter (\<lambda>b. js_le0 (cmp a b) \<and> js_le0 (cmp b a)) (stable node_externals xs cmp) =
      filter (\<lambda>b. js_le0 (cmp a b) \<and> js_le0 (cmp b a)) xs"
  proof
    fix a assume "a \<in> set xs"
    from exec_runs [OF c this runs] show
      "filter (\<lambda>b. js_le0 (cmp a b) \<and> js_le0 (cmp b a)) (stable node_externals xs cmp) =
       filter (\<lambda>b. js_le0 (cmp a b) \<and> js_le0 (cmp b a)) xs"
      by (simp add: st concat_singletons)
  qed
  from m s f show "mset (stable node_externals xs cmp) = mset xs \<and>
        sorted_wrt (\<lambda>a b. js_le0 (cmp a b)) (stable node_externals xs cmp) \<and>
        (\<forall>a \<in> set xs.
           filter (\<lambda>b. js_le0 (cmp a b) \<and> js_le0 (cmp b a)) (stable node_externals xs cmp) =
           filter (\<lambda>b. js_le0 (cmp a b) \<and> js_le0 (cmp b a)) xs)"
    by blast
qed

subsection \<open>Languages named like an inherited property\<close>

text \<open>
  What \<^verbatim>\<open>languages\<close> returns or throws, for every list: the configuration error on the
  empty list; otherwise the error of the first tag that does not parse, has no primary
  language, or has a primary language named like an inherited property; a normal return
  when there is no such tag.
\<close>

lemma languages_result:
  "fst (languages X tags a) =
     (if tags = [] then Some ConfigurationError
      else (case find (stops X) tags of None \<Rightarrow> None | Some t \<Rightarrow> Some (error_for X t)))"
  by (simp add: languages_eq split: option.splits)

text \<open>
  Claim C6, at an input where the code departs from it. The tag \<open>toString\<close> is well
  formed: it parses, and its primary language is \<open>toString\<close>. The list is not empty, no
  tag fails to parse and no tag lacks a primary language, so the claim has \<^verbatim>\<open>languages\<close>
  return normally. The code reads the property \<open>toString\<close> of the index, finds the
  function that every object inherits, takes it for a bucket and calls \<^verbatim>\<open>push\<close> on it: a
  \<^verbatim>\<open>TypeError\<close> that is none of the three errors leaves the call. The same happens for
  \<open>valueOf\<close> after an accepted tag.
\<close>

theorem languages_inherited_language:
  "bcp47_parse node_externals ''toString'' =
     Some \<lparr>language = Some ''toString'', extlang = [], script = None, region = None,
           variant = [], extension = [], privateuse = []\<rparr> \<and>
   fst (languages node_externals [''toString''] module_create) = Some NotAFunctionError \<and>
   fst (languages node_externals [''en'', ''valueOf''] module_create) = Some NotAFunctionError"
  by code_simp

text \<open>
  What \<^verbatim>\<open>parse\<close> does, for every priority list: it throws exactly when the priority list
  is not empty and the tag of some sorted component parses with a language named like an
  inherited property (the index never has such a property of its own after
  \<^verbatim>\<open>languages\<close>); when it returns, the list is not empty, and \<^verbatim>\<open>get\<close> returns its first
  element.
\<close>

lemma parse_throws_iff:
  "(\<exists>e. fst (parse X pl a) = Inl e) =
     (truthy_str pl \<and>
      list_ex (throws_on X (languageTagsWithValues a)) (parseAndSortLanguageTags X (the pl)))"
  by (auto simp: parse_eq)

lemma parse_returns_nonempty: "fst (parse X pl a) = Inr res \<Longrightarrow> res \<noteq> []"
  by (auto simp: parse_eq split: if_splits)

lemma get_returns_first:
  "fst (parse X pl a) = Inr res \<Longrightarrow> fst (get X pl a) = Inr (hd res)"
  using parse_returns_nonempty [of X pl a res]
  by (cases res) (auto simp: get_eq js_index_def)

lemma unrecognised_default:
  assumes "stable_permutes X"
    and "\<forall>c \<in> set (weighted_tags X s).
           bcp47_parse X (tag c) = None \<or>
           (\<exists>r. bcp47_parse X (tag c) = Some r \<and>
                js_lookup (languageTagsWithValues a) (to_key (language r)) = Absent)"
  shows "fst (parse X (Some s) a) = Inr [defaultLanguageTag a]"
proof -
  have each: "matches_of X (languageTagsWithValues a) c = [] \<and>
              \<not> throws_on X (languageTagsWithValues a) c"
    if "c \<in> set (parseAndSortLanguageTags X s)" for c
  proof -
    from that assms(1) have "c \<in> set (weighted_tags X s)"
      using sorted_set [of X s] by simp
    with assms(2) have "bcp47_parse X (tag c) = None \<or>
           (\<exists>r. bcp47_parse X (tag c) = Some r \<and>
                js_lookup (languageTagsWithValues a) (to_key (language r)) = Absent)"
      by blast
    then show ?thesis
      by (auto simp: matches_of_def throws_on_def js_lookup_def split: option.splits if_splits)
  qed
  then have "concat (map (matches_of X (languageTagsWithValues a))
      (parseAndSortLanguageTags X s)) = []"
    "\<not> list_ex (throws_on X (languageTagsWithValues a)) (parseAndSortLanguageTags X s)"
    by (auto simp: list_ex_iff)
  then show ?thesis by (simp add: parse_eq)
qed

text \<open>
  Claim C5, at an input where the code departs from it. The instance is configured with
  \<open>en\<close>. The priority list \<open>toString\<close> is a string like any other, and its one tag
  parses. The claim has \<^verbatim>\<open>parse\<close> skip it and return the default. The code reads the
  property \<open>toString\<close> of the index, finds the inherited function, so the guard for a
  missing bucket does not skip the tag, and \<^verbatim>\<open>for ... of\<close> over the function throws a
  \<^verbatim>\<open>TypeError\<close>, out of \<^verbatim>\<open>parse\<close> and out of \<^verbatim>\<open>get\<close>. The same happens when such a tag
  is one of several.
\<close>

theorem parse_inherited_language:
  "fst (languages node_externals [''en''] module_create) = None \<and>
   fst (parse node_externals (Some ''toString'')
          (snd (languages node_externals [''en''] module_create))) = Inl NotIterableError \<and>
   fst (get node_externals (Some ''toString'')
          (snd (languages node_externals [''en''] module_create))) = Inl NotIterableError \<and>
   fst (parse node_externals (Some ''en, valueOf;q=0.1'')
          (snd (languages node_externals [''en''] module_create))) = Inl NotIterableError"
  by code_simp

subsection \<open>Negotiation only reads\<close>

text \<open>
  Claim C8. \<^verbatim>\<open>parse\<close> and \<^verbatim>\<open>get\<close>, whether they return or throw, leave the instance as
  it was: index, default tag and all. Hence a second call with the same priority list, after a \<^verbatim>\<open>parse\<close> or a
  \<^verbatim>\<open>get\<close> of any priority list in between, returns the same result as the first.
\<close>

theorem negotiation_reads_only:
  "snd (parse X pl a) = a \<and> snd (get X pl a) = a \<and>
   fst (parse X pl (snd (parse X pl a))) = fst (parse X pl a) \<and>
   fst (parse X pl (snd (get X pl' a))) = fst (parse X pl a) \<and>
   fst (get X pl (snd (get X pl a))) = fst (get X pl a)"
  by (simp add: parse_state get_state)

subsection \<open>\<^verbatim>\<open>create\<close>\<close>

text \<open>
  Claim C9, at the input where the code departs from it. The instance the module exports
  has a \<^verbatim>\<open>create\<close> of its own, which returns a new instance with an empty index and no
  default tag. That new instance has only the method of the class, and the method of the
  class returns \<^verbatim>\<open>null\<close>: the instance produced by \<^verbatim>\<open>create\<close> cannot produce another.
\<close>

theorem create_of_created_instance:
  "fst (create module_create) = Some new_AcceptLanguage \<and>
   fst (create new_AcceptLanguage) = None"
  by (simp add: create_def module_create_def new_AcceptLanguage_def)

subsection \<open>What \<^verbatim>\<open>languages\<close> leaves behind\<close>

lemma takeWhile_first:
  assumes "find P xs = Some u" and "Q u" and "\<And>x. Q x \<Longrightarrow> P x"
  shows "takeWhile (\<lambda>x. \<not> Q x) xs = takeWhile (\<lambda>x. \<not> P x) xs"
  using assms(1)
proof (induction xs)
  case Nil
  then show ?case by simp
next
  case (Cons x xs)
  show ?case
  proof (cases "P x")
    case True
    with Cons.prems have "x = u" by simp
    with True assms(2) show ?thesis by simp
  next
    case False
    then have "\<not> Q x" using assms(3) by blast
    with False Cons show ?thesis by simp
  qed
qed

lemma error_for_not_configuration: "error_for X t = ConfigurationError \<Longrightarrow> False"
  by (auto simp: error_for_def split: option.splits if_splits)

lemma error_for_offending:
  "error_for X u = InvalidTagError t \<or> error_for X u = UnsupportedTagError t \<Longrightarrow> offending X u"
  by (auto simp: error_for_def offending_def split: option.splits if_splits)

text \<open>
  Claim C7, as stated, at an input where it fails. An instance is configured with
  \<open>fr\<close>; then \<^verbatim>\<open>languages\<close> is called with \<open>en\<close> and a string that does not parse. The
  call throws, and afterwards the bucket of \<open>fr\<close> is gone and a bucket of \<open>en\<close> is there:
  the index is not as it was before the call.
\<close>

theorem languages_not_atomic:
  "fst (languages node_externals [''en'', ''not-a-valid-tag-!!'']
          (snd (languages node_externals [''fr''] module_create))) =
     Some (InvalidTagError ''not-a-valid-tag-!!'') \<and>
   map value' (the (languageTagsWithValues
          (snd (languages node_externals [''fr''] module_create)) ''fr'')) = [''fr''] \<and>
   languageTagsWithValues
     (snd (languages node_externals [''en'', ''not-a-valid-tag-!!'']
            (snd (languages node_externals [''fr''] module_create)))) ''fr'' = None \<and>
   map value' (the (languageTagsWithValues
     (snd (languages node_externals [''en'', ''not-a-valid-tag-!!'']
            (snd (languages node_externals [''fr''] module_create)))) ''en'')) = [''en'']"
  by code_simp

text \<open>
  Claim C7, amended. A call that returns normally leaves the index that the list alone
  describes, whatever the index was before, and the default tag \<open>tags[0]\<close>. A call that
  throws the configuration error leaves the instance as it was. A call that throws for a
  tag leaves the default tag as it was, and the index that the tags before the first one
  not accepted describe.
\<close>

theorem languages_effect:
  "(fst (languages X tags a) = None \<longrightarrow>
      snd (languages X tags a) =
        a\<lparr>languageTagsWithValues := index_of X tags,
          defaultLanguageTag := Some (tags ! 0)\<rparr>) \<and>
   (fst (languages X tags a) = Some ConfigurationError \<longrightarrow> snd (languages X tags a) = a) \<and>
   (fst (languages X tags a) = Some (InvalidTagError t) \<or>
    fst (languages X tags a) = Some (UnsupportedTagError t) \<longrightarrow>
      snd (languages X tags a) =
        a\<lparr>languageTagsWithValues :=
            index_of X (takeWhile (\<lambda>u. \<not> offending X u) tags)\<rparr>)"
proof (intro conjI impI)
  assume "fst (languages X tags a) = None"
  then show "snd (languages X tags a) =
        a\<lparr>languageTagsWithValues := index_of X tags,
          defaultLanguageTag := Some (tags ! 0)\<rparr>"
    by (auto simp: languages_eq split: option.splits if_splits)
next
  assume "fst (languages X tags a) = Some ConfigurationError"
  then show "snd (languages X tags a) = a"
    by (auto simp: languages_eq split: option.splits if_splits
             dest: error_for_not_configuration)
next
  assume e: "fst (languages X tags a) = Some (InvalidTagError t) \<or>
    fst (languages X tags a) = Some (UnsupportedTagError t)"
  then have ne: "tags \<noteq> []"
    by (auto simp: languages_eq split: if_splits)
  from e ne obtain u where u: "find (stops X) tags = Some u"
    and eu: "error_for X u = InvalidTagError t \<or> error_for X u = UnsupportedTagError t"
    by (auto simp: languages_eq split: option.splits)
  from eu have "offending X u" by (rule error_for_offending)
  then have tw: "takeWhile (\<lambda>x. \<not> offending X x) tags = takeWhile (\<lambda>x. \<not> stops X x) tags"
    using takeWhile_first [OF u, of "offending X"] by (simp add: stops_def)
  from ne u show "snd (languages X tags a) =
        a\<lparr>languageTagsWithValues :=
            index_of X (takeWhile (\<lambda>u. \<not> offending X u) tags)\<rparr>"
    unfolding tw by (simp add: languages_eq)
qed

theorem languages_effect_witness:
  "fst (languages node_externals [''en-US'', ''fr'']
          (snd (languages node_externals [''de''] module_create))) = None \<and>
   snd (languages node_externals [''en-US'', ''fr'']
          (snd (languages node_externals [''de''] module_create))) =
     (snd (languages node_externals [''de''] module_create))
       \<lparr>languageTagsWithValues := index_of node_externals [''en-US'', ''fr''],
        defaultLanguageTag := Some ''en-US''\<rparr> \<and>
   fst (languages node_externals []
          (snd (languages node_externals [''de''] module_create))) = Some ConfigurationError \<and>
   snd (languages node_externals []
          (snd (languages node_externals [''de''] module_create))) =
     snd (languages node_externals [''de''] module_create) \<and>
   fst (languages node_externals [''en'', ''not-a-valid-tag-!!'', ''fr'']
          (snd (languages node_externals [''de''] module_create))) =
     Some (InvalidTagError ''not-a-valid-tag-!!'') \<and>
   snd (languages node_externals [''en'', ''not-a-valid-tag-!!'', ''fr'']
          (snd (languages node_externals [''de''] module_create))) =
     (snd (languages node_externals [''de''] module_create))
       \<lparr>languageTagsWithValues := index_of node_externals [''en'']\<rparr>"
proof -
  define a where "a = snd (languages node_externals [''de''] module_create)"
  note t = languages_effect [where X = node_externals and a = a]
  have h1: "fst (languages node_externals [''en-US'', ''fr''] a) = None"
    unfolding a_def by code_simp
  have h2: "fst (languages node_externals [] a) = Some ConfigurationError"
    unfolding a_def by code_simp
  have h3: "fst (languages node_externals [''en'', ''not-a-valid-tag-!!'', ''fr''] a) =
      Some (InvalidTagError ''not-a-valid-tag-!!'')"
    unfolding a_def by code_simp
  have tw: "takeWhile (\<lambda>u. \<not> offending node_externals u)
      [''en'', ''not-a-valid-tag-!!'', ''fr''] = [''en'']"
    by code_simp
  have r1: "snd (languages node_externals [''en-US'', ''fr''] a) =
      a\<lparr>languageTagsWithValues := index_of node_externals [''en-US'', ''fr''],
        defaultLanguageTag := Some ''en-US''\<rparr>"
    using t [of "[''en-US'', ''fr'']", THEN conjunct1] h1 by simp
  have r2: "snd (languages node_externals [] a) = a"
    using t [of "[]", THEN conjunct2, THEN conjunct1] h2 by simp
  have r3: "snd (languages node_externals [''en'', ''not-a-valid-tag-!!'', ''fr''] a) =
      a\<lparr>languageTagsWithValues := index_of node_externals [''en'']\<rparr>"
    using t [of "[''en'', ''not-a-valid-tag-!!'', ''fr'']" "''not-a-valid-tag-!!''",
             THEN conjunct2, THEN conjunct2] h3
    unfolding tw by simp
  from h1 h2 h3 r1 r2 r3 show ?thesis unfolding a_def by blast
qed

subsection \<open>No deduplication\<close>

lemma count_list_concat_map:
  "count_list (concat (map g xs)) v = sum_list (map (\<lambda>x. count_list (g x) v) xs)"
  by (induction xs) auto

lemma count_list_map_Some: "count_list (map Some xs) (Some v) = count_list xs v"
  by (induction xs) auto

lemma count_list_map_filter:
  "count_list (map f (filter P xs)) v = length (filter (\<lambda>x. f x = v \<and> P x) xs)"
  by (induction xs) auto

lemma sum_list_permuted:
  fixes f :: "'a \<Rightarrow> nat"
  assumes "mset xs = mset ys"
  shows "sum_list (map f xs) = sum_list (map f ys)"
proof -
  have "mset (map f xs) = mset (map f ys)"
    using assms by simp
  then show ?thesis
    by (metis sum_mset_sum_list)
qed

text \<open>
  Claim C10. The result is not deduplicated. When the sort returns the elements it was
  given, some requested component has a match and \<^verbatim>\<open>parse\<close> returns, the result is the
  concatenation, over the sorted components, of what each component matches; so the
  number of times a value
  occurs in the result is the sum, over the requested components with tag text, of the
  number of times the component matches it, and a component matches a value once for
  every candidate of its bucket that has the value and passes the property loop. With
  the registry \<open>en\<close>, the request \<open>en-US,en\<close> gives \<open>en\<close> twice.
\<close>

theorem result_not_deduplicated:
  "(stable_permutes X \<and> s \<noteq> [] \<and>
    (\<exists>c \<in> set (weighted_tags X s). matches_of X (languageTagsWithValues a) c \<noteq> []) \<and>
    fst (parse X (Some s) a) = Inr res \<longrightarrow>
      res =
        map Some (concat (map (matches_of X (languageTagsWithValues a))
                           (parseAndSortLanguageTags X s))) \<and>
      count_list res (Some v) =
        sum_list (map (\<lambda>c. count_list (matches_of X (languageTagsWithValues a) c) v)
                    (weighted_tags X s))) \<and>
   (bcp47_parse X (tag c) = Some r \<and>
    languageTagsWithValues a (to_key (language r)) = Some bucket \<longrightarrow>
      count_list (matches_of X (languageTagsWithValues a) c) v =
        length (filter (\<lambda>d. value' d = v \<and> props_loop props d r) bucket))"
proof (intro conjI impI)
  assume h: "stable_permutes X \<and> s \<noteq> [] \<and>
    (\<exists>c \<in> set (weighted_tags X s). matches_of X (languageTagsWithValues a) c \<noteq> []) \<and>
    fst (parse X (Some s) a) = Inr res"
  let ?m = "matches_of X (languageTagsWithValues a)"
  from h have perm: "mset (parseAndSortLanguageTags X s) = mset (weighted_tags X s)"
    by (simp add: stable_permutes_def parseAndSortLanguageTags_def)
  from h have "\<exists>c \<in> set (parseAndSortLanguageTags X s). ?m c \<noteq> []"
    using sorted_set [of X s] by blast
  then have ne: "concat (map ?m (parseAndSortLanguageTags X s)) \<noteq> []"
    by simp
  with h show res: "res =
      map Some (concat (map ?m (parseAndSortLanguageTags X s)))"
    by (auto simp: parse_eq truthy_str_def split: if_splits)
  show "count_list res (Some v) =
      sum_list (map (\<lambda>c. count_list (?m c) v) (weighted_tags X s))"
    unfolding res count_list_map_Some count_list_concat_map
    by (rule sum_list_permuted [OF perm])
next
  assume "bcp47_parse X (tag c) = Some r \<and>
    languageTagsWithValues a (to_key (language r)) = Some bucket"
  then show "count_list (matches_of X (languageTagsWithValues a) c) v =
        length (filter (\<lambda>d. value' d = v \<and> props_loop props d r) bucket)"
    by (simp add: matches_of_def count_list_map_filter)
qed

theorem result_not_deduplicated_witness:
  "stable_permutes node_externals \<and>
   map (matches_of node_externals
          (languageTagsWithValues (snd (languages node_externals [''en''] module_create))))
     (weighted_tags node_externals ''en-US,en'') = [[''en''], [''en'']] \<and>
   fst (parse node_externals (Some ''en-US,en'')
          (snd (languages node_externals [''en''] module_create))) =
     Inr [Some ''en'', Some ''en''] \<and>
   count_list [Some ''en'', Some ''en''] (Some ''en'') = 2"
proof -
  define a where "a = snd (languages node_externals [''en''] module_create)"
  have m: "map (matches_of node_externals (languageTagsWithValues a))
     (weighted_tags node_externals ''en-US,en'') = [[''en''], [''en'']]"
    unfolding a_def by code_simp
  then have ex: "\<exists>c \<in> set (weighted_tags node_externals ''en-US,en'').
      matches_of node_externals (languageTagsWithValues a) c \<noteq> []"
    by (cases "weighted_tags node_externals ''en-US,en''") auto
  have s: "sum_list (map (\<lambda>c. count_list (matches_of node_externals (languageTagsWithValues a) c) ''en'')
                    (weighted_tags node_externals ''en-US,en'')) = 2"
  proof -
    have "map (\<lambda>c. count_list (matches_of node_externals (languageTagsWithValues a) c) ''en'')
                    (weighted_tags node_externals ''en-US,en'') =
          map (\<lambda>l. count_list l ''en'')
            (map (matches_of node_externals (languageTagsWithValues a))
               (weighted_tags node_externals ''en-US,en''))"
      by simp
    also have "\<dots> = [1, 1]" unfolding m by simp
    finally show ?thesis by simp
  qed
  have e: "fst (parse node_externals (Some ''en-US,en'') a) = Inr [Some ''en'', Some ''en'']"
    unfolding a_def by code_simp
  have pre: "stable_permutes node_externals \<and> ''en-US,en'' \<noteq> [] \<and>
      (\<exists>c \<in> set (weighted_tags node_externals ''en-US,en'').
         matches_of node_externals (languageTagsWithValues a) c \<noteq> []) \<and>
      fst (parse node_externals (Some ''en-US,en'') a) = Inr [Some ''en'', Some ''en'']"
    using node_stable_permutes ex e by simp
  have c: "count_list [Some ''en'', Some ''en''] (Some ''en'') = 2"
    using result_not_deduplicated [where X = node_externals and s = "''en-US,en''"
        and a = a and v = "''en''" and res = "[Some ''en'', Some ''en'']",
        THEN conjunct1, THEN mp, OF pre, THEN conjunct2]
    unfolding s .
  from node_stable_permutes m e c show ?thesis unfolding a_def by blast
qed

subsection \<open>The order of the result\<close>

lemma by_quality_finite:
  assumes "finite_quality a" "finite_quality b"
  shows "by_quality a b = Finite (quality_value b - quality_value a)"
  using assms
  by (cases "quality a"; cases "quality b")
     (simp_all add: by_quality_def finite_quality_def quality_value_def)

lemma le0_by_quality:
  assumes "finite_quality a" "finite_quality b"
  shows "js_le0 (by_quality a b) = (quality_value b \<le> quality_value a)"
  by (simp add: by_quality_finite [OF assms])

lemma quality_eq_iff:
  assumes "finite_quality a" "finite_quality b"
  shows "(quality a = quality b) = (quality_value a = quality_value b)"
  using assms
  by (cases "quality a"; cases "quality b")
     (simp_all add: finite_quality_def quality_value_def)

lemma consistent_by_quality:
  assumes "\<forall>c \<in> S. finite_quality c"
  shows "consistent by_quality S"
  unfolding consistent_def
proof (intro conjI ballI impI)
  fix a b assume "a \<in> S" "b \<in> S"
  with assms have f: "finite_quality a" "finite_quality b" by auto
  show "by_quality a b \<noteq> NaN" by (simp add: by_quality_finite [OF f])
  show "js_gt0 (by_quality a b) = js_lt0 (by_quality b a)"
    by (simp add: by_quality_finite [OF f] by_quality_finite [OF f(2) f(1)])
next
  fix a b c assume "a \<in> S" "b \<in> S" "c \<in> S"
    and le: "js_le0 (by_quality a b) \<and> js_le0 (by_quality b c)"
  with assms have f: "finite_quality a" "finite_quality b" "finite_quality c" by auto
  from le show "js_le0 (by_quality a c)"
    by (simp add: le0_by_quality f)
qed

lemma sorted_components:
  assumes "stable_contract X" and fin: "\<forall>c \<in> set (weighted_tags X s). finite_quality c"
  shows "mset (parseAndSortLanguageTags X s) = mset (weighted_tags X s)"
    and "sorted_wrt (\<lambda>c d. quality_value d \<le> quality_value c) (parseAndSortLanguageTags X s)"
    and "filter (\<lambda>c. quality c = q) (parseAndSortLanguageTags X s) =
         filter (\<lambda>c. quality c = q) (weighted_tags X s)"
proof -
  let ?W = "weighted_tags X s" and ?S = "parseAndSortLanguageTags X s"
  have S: "?S = stable X ?W by_quality" by (simp add: parseAndSortLanguageTags_def)
  have c: "consistent by_quality (set ?W)" using fin by (rule consistent_by_quality)
  from assms(1) c have m: "mset ?S = mset ?W"
    and srt: "sorted_wrt (\<lambda>a b. js_le0 (by_quality a b)) ?S"
    and stab: "\<And>a. a \<in> set ?W \<Longrightarrow>
        filter (\<lambda>b. js_le0 (by_quality a b) \<and> js_le0 (by_quality b a)) ?S =
        filter (\<lambda>b. js_le0 (by_quality a b) \<and> js_le0 (by_quality b a)) ?W"
    unfolding stable_contract_def S by blast+
  from m have sets: "set ?S = set ?W" by (metis set_mset_mset)
  show "mset ?S = mset ?W" by (rule m)
  show "sorted_wrt (\<lambda>c d. quality_value d \<le> quality_value c) ?S"
  proof (rule sorted_wrt_mono_rel [OF _ srt])
    fix x y assume "x \<in> set ?S" "y \<in> set ?S" "js_le0 (by_quality x y)"
    with sets fin show "quality_value y \<le> quality_value x"
      by (simp add: le0_by_quality)
  qed
  show "filter (\<lambda>c. quality c = q) ?S = filter (\<lambda>c. quality c = q) ?W"
  proof (cases "\<exists>a \<in> set ?W. quality a = q")
    case False
    then have "filter (\<lambda>c. quality c = q) ?W = []" "filter (\<lambda>c. quality c = q) ?S = []"
      using sets by (auto simp: filter_empty_conv)
    then show ?thesis by simp
  next
    case True
    then obtain a where a: "a \<in> set ?W" "quality a = q" by blast
    have tie: "(js_le0 (by_quality a b) \<and> js_le0 (by_quality b a)) = (quality b = q)"
      if "b \<in> set ?W" for b
    proof -
      from a that fin have f: "finite_quality a" "finite_quality b" by auto
      have "(js_le0 (by_quality a b) \<and> js_le0 (by_quality b a)) =
            (quality_value b \<le> quality_value a \<and> quality_value a \<le> quality_value b)"
        unfolding le0_by_quality [OF f] le0_by_quality [OF f(2) f(1)] ..
      also have "\<dots> = (quality_value a = quality_value b)" by auto
      also have "\<dots> = (quality a = quality b)" by (rule quality_eq_iff [OF f, symmetric])
      also have "\<dots> = (quality b = q)" unfolding a(2) by (rule eq_commute)
      finally show ?thesis .
    qed
    have "filter (\<lambda>c. quality c = q) ?S =
          filter (\<lambda>b. js_le0 (by_quality a b) \<and> js_le0 (by_quality b a)) ?S"
      by (rule filter_cong) (use tie sets in auto)
    also have "\<dots> = filter (\<lambda>b. js_le0 (by_quality a b) \<and> js_le0 (by_quality b a)) ?W"
      by (rule stab [OF a(1)])
    also have "\<dots> = filter (\<lambda>c. quality c = q) ?W"
      by (rule filter_cong) (use tie in auto)
    finally show ?thesis .
  qed
qed

lemma sorted_is_sort_key:
  assumes "stable_contract X" and fin: "\<forall>c \<in> set (weighted_tags X s). finite_quality c"
  shows "parseAndSortLanguageTags X s = sort_key (\<lambda>c. - quality_value c) (weighted_tags X s)"
proof (rule properties_for_sort_key [symmetric])
  let ?W = "weighted_tags X s" and ?S = "parseAndSortLanguageTags X s"
  note p = sorted_components [OF assms]
  show "mset ?S = mset ?W" by (rule p(1))
  from p(1) have sets: "set ?S = set ?W" by (metis set_mset_mset)
  show "sorted (map (\<lambda>c. - quality_value c) ?S)"
    using p(2) by (simp add: sorted_map)
  fix k assume "k \<in> set ?S"
  with sets fin have fk: "finite_quality k" by auto
  have e: "(- quality_value k = - quality_value c) = (quality c = quality k)"
    if "c \<in> set ?W" for c
    using quality_eq_iff [of c k] fk fin that by auto
  have "filter (\<lambda>c. - quality_value k = - quality_value c) ?S =
        filter (\<lambda>c. quality c = quality k) ?S"
    by (rule filter_cong) (use e sets in auto)
  also have "\<dots> = filter (\<lambda>c. quality c = quality k) ?W" by (rule p(3))
  also have "\<dots> = filter (\<lambda>c. - quality_value k = - quality_value c) ?W"
    by (rule filter_cong) (use e in auto)
  finally show "filter (\<lambda>c. - quality_value k = - quality_value c) ?S =
        filter (\<lambda>c. - quality_value k = - quality_value c) ?W" .
qed


text \<open>
  Claim C3, as stated, at an input where it fails. In the priority list
  \<^verbatim>\<open>zh;q=0.7,fr;q=x,en;q=0.5\<close> the quality of \<open>fr\<close> is not a number, and every comparison
  with it yields not-a-number. The sort puts \<open>en\<close>, of quality 0.5, before \<open>zh\<close>, of
  quality 0.7: the components are not in descending quality, and with the registry \<open>zh\<close>,
  \<open>en\<close> the result names \<open>en\<close> before \<open>zh\<close>.
\<close>

theorem unsorted_by_quality_not_a_number:
  "map tag (parseAndSortLanguageTags node_externals ''zh;q=0.7,fr;q=x,en;q=0.5'') =
     [''en'', ''fr'', ''zh''] \<and>
   map quality (parseAndSortLanguageTags node_externals ''zh;q=0.7,fr;q=x,en;q=0.5'') =
     [Finite (1 / 2), NaN, Finite (7 / 10)] \<and>
   fst (parse node_externals (Some ''zh;q=0.7,fr;q=x,en;q=0.5'')
          (snd (languages node_externals [''zh'', ''en''] module_create))) =
     Inr [Some ''en'', Some ''zh'']"
  by code_simp

text \<open>
  Claim C3, amended. Let the external sort meet its contract and let every component with
  tag text have a finite number as its quality (no quality that is not a number or
  infinite, for which the comparator \<open>b.quality - a.quality\<close> does not order the
  components). Then the sorted components are the components with tag text, no component
  is followed by one of greater quality, and the components of any one quality are in
  their original order: the list is the stable sort by descending quality. What \<^verbatim>\<open>parse\<close>
  returns for a non-empty priority list is, unless nothing matches, the concatenation
  over the sorted components of the matches of each; the matches of a component are the
  values of the candidates of its bucket that pass, in the order of the bucket; and after
  a successful \<^verbatim>\<open>languages\<close> a bucket holds the tags of its language in the order of the
  list given.
\<close>

theorem sorted_by_descending_quality:
  "(stable_contract X \<and> (\<forall>c \<in> set (weighted_tags X s). finite_quality c) \<longrightarrow>
      mset (parseAndSortLanguageTags X s) = mset (weighted_tags X s) \<and>
      sorted_wrt (\<lambda>c d. quality_value d \<le> quality_value c) (parseAndSortLanguageTags X s) \<and>
      (\<forall>q. filter (\<lambda>c. quality c = q) (parseAndSortLanguageTags X s) =
           filter (\<lambda>c. quality c = q) (weighted_tags X s)) \<and>
      parseAndSortLanguageTags X s = sort_key (\<lambda>c. - quality_value c) (weighted_tags X s)) \<and>
   (s \<noteq> [] \<and> fst (parse X (Some s) a) = Inr res \<longrightarrow>
      res =
        (if concat (map (matches_of X (languageTagsWithValues a))
                     (parseAndSortLanguageTags X s)) = []
         then [defaultLanguageTag a]
         else map Some (concat (map (matches_of X (languageTagsWithValues a))
                                 (parseAndSortLanguageTags X s))))) \<and>
   (bcp47_parse X (tag c) = Some r \<and>
    languageTagsWithValues a (to_key (language r)) = Some bucket \<longrightarrow>
      matches_of X (languageTagsWithValues a) c =
        map value' (filter (\<lambda>d. props_loop props d r) bucket)) \<and>
   (fst (languages X tags a) = None \<longrightarrow>
      languageTagsWithValues (snd (languages X tags a)) = index_of X tags)"
proof (intro conjI impI allI)
  assume h: "stable_contract X \<and> (\<forall>c \<in> set (weighted_tags X s). finite_quality c)"
  then have c: "stable_contract X" and f: "\<forall>c \<in> set (weighted_tags X s). finite_quality c"
    by blast+
  show "mset (parseAndSortLanguageTags X s) = mset (weighted_tags X s)"
    by (rule sorted_components(1) [OF c f])
  show "sorted_wrt (\<lambda>c d. quality_value d \<le> quality_value c) (parseAndSortLanguageTags X s)"
    by (rule sorted_components(2) [OF c f])
  show "filter (\<lambda>c. quality c = q) (parseAndSortLanguageTags X s) =
        filter (\<lambda>c. quality c = q) (weighted_tags X s)" for q
    by (rule sorted_components(3) [OF c f])
  show "parseAndSortLanguageTags X s = sort_key (\<lambda>c. - quality_value c) (weighted_tags X s)"
    by (rule sorted_is_sort_key [OF c f])
next
  assume "s \<noteq> [] \<and> fst (parse X (Some s) a) = Inr res"
  then show "res =
        (if concat (map (matches_of X (languageTagsWithValues a))
                     (parseAndSortLanguageTags X s)) = []
         then [defaultLanguageTag a]
         else map Some (concat (map (matches_of X (languageTagsWithValues a))
                                 (parseAndSortLanguageTags X s))))"
    by (auto simp: parse_eq truthy_str_def split: if_splits)
next
  assume "bcp47_parse X (tag c) = Some r \<and>
    languageTagsWithValues a (to_key (language r)) = Some bucket"
  then show "matches_of X (languageTagsWithValues a) c =
        map value' (filter (\<lambda>d. props_loop props d r) bucket)"
    by (simp add: matches_of_def)
next
  assume "fst (languages X tags a) = None"
  then show "languageTagsWithValues (snd (languages X tags a)) = index_of X tags"
    by (auto simp: languages_eq split: option.splits if_splits)
qed

theorem sorted_by_descending_quality_witness:
  "stable_contract node_externals \<and>
   map tag (parseAndSortLanguageTags node_externals ''fr-FR;q=0.5,en-US;q=0.9'') =
     [''en-US'', ''fr-FR''] \<and>
   map tag (parseAndSortLanguageTags node_externals ''en-US;q=0.5,fr-FR;q=0.5'') =
     [''en-US'', ''fr-FR''] \<and>
   map tag (parseAndSortLanguageTags node_externals ''de;q=0.3, en-US;q=0.8,fr,en-GB, it;q=0.8'') =
     [''fr'', ''en-GB'', ''en-US'', ''it'', ''de''] \<and>
   fst (parse node_externals (Some ''fr-FR;q=0.5,en-US;q=0.9'')
          (snd (languages node_externals [''en-US'', ''fr-FR''] module_create))) =
     Inr [Some ''en-US'', Some ''fr-FR''] \<and>
   fst (parse node_externals (Some ''en-US;q=0.5,fr-FR;q=0.5'')
          (snd (languages node_externals [''en-US'', ''fr-FR''] module_create))) =
     Inr [Some ''en-US'', Some ''fr-FR''] \<and>
   fst (parse node_externals (Some ''de;q=0.3, en-US;q=0.8,fr,en-GB, it;q=0.8'')
          (snd (languages node_externals [''en-GB'', ''de'', ''en'', ''en-US''] module_create))) =
     Inr [Some ''en-GB'', Some ''en'', Some ''en'', Some ''en-US'', Some ''de'']"
proof -
  note c = node_stable_contract
  have f1: "\<forall>c \<in> set (weighted_tags node_externals ''fr-FR;q=0.5,en-US;q=0.9'').
      finite_quality c"
    by code_simp
  have f2: "\<forall>c \<in> set (weighted_tags node_externals ''en-US;q=0.5,fr-FR;q=0.5'').
      finite_quality c"
    by code_simp
  have f3: "\<forall>c \<in> set (weighted_tags node_externals
      ''de;q=0.3, en-US;q=0.8,fr,en-GB, it;q=0.8''). finite_quality c"
    by code_simp
  have k1: "map tag (sort_key (\<lambda>c. - quality_value c)
      (weighted_tags node_externals ''fr-FR;q=0.5,en-US;q=0.9'')) = [''en-US'', ''fr-FR'']"
    by code_simp
  have k2: "map tag (sort_key (\<lambda>c. - quality_value c)
      (weighted_tags node_externals ''en-US;q=0.5,fr-FR;q=0.5'')) = [''en-US'', ''fr-FR'']"
    by code_simp
  have k3: "map tag (sort_key (\<lambda>c. - quality_value c)
      (weighted_tags node_externals ''de;q=0.3, en-US;q=0.8,fr,en-GB, it;q=0.8'')) =
      [''fr'', ''en-GB'', ''en-US'', ''it'', ''de'']"
    by code_simp
  note t = sorted_by_descending_quality [where X = node_externals, THEN conjunct1, THEN mp,
      THEN conjunct2, THEN conjunct2, THEN conjunct2]
  have s1: "map tag (parseAndSortLanguageTags node_externals ''fr-FR;q=0.5,en-US;q=0.9'') =
     [''en-US'', ''fr-FR'']"
    using t [OF conjI [OF c f1]] k1 by simp
  have s2: "map tag (parseAndSortLanguageTags node_externals ''en-US;q=0.5,fr-FR;q=0.5'') =
     [''en-US'', ''fr-FR'']"
    using t [OF conjI [OF c f2]] k2 by simp
  have s3: "map tag (parseAndSortLanguageTags node_externals
      ''de;q=0.3, en-US;q=0.8,fr,en-GB, it;q=0.8'') = [''fr'', ''en-GB'', ''en-US'', ''it'', ''de'']"
    using t [OF conjI [OF c f3]] k3 by simp
  have e1: "fst (parse node_externals (Some ''fr-FR;q=0.5,en-US;q=0.9'')
          (snd (languages node_externals [''en-US'', ''fr-FR''] module_create))) =
     Inr [Some ''en-US'', Some ''fr-FR'']"
    by code_simp
  have e2: "fst (parse node_externals (Some ''en-US;q=0.5,fr-FR;q=0.5'')
          (snd (languages node_externals [''en-US'', ''fr-FR''] module_create))) =
     Inr [Some ''en-US'', Some ''fr-FR'']"
    by code_simp
  have e3: "fst (parse node_externals (Some ''de;q=0.3, en-US;q=0.8,fr,en-GB, it;q=0.8'')
          (snd (languages node_externals [''en-GB'', ''de'', ''en'', ''en-US''] module_create))) =
     Inr [Some ''en-GB'', Some ''en'', Some ''en'', Some ''en-US'', Some ''de'']"
    by code_simp
  from c s1 s2 s3 e1 e2 e3 show ?thesis by blast
qed

subsection \<open>The quality of a component\<close>

lemma js_split_without: "sep \<notin> set a \<Longrightarrow> js_split sep a = [a]"
  by (induction a) auto

lemma js_split_append:
  "sep \<notin> set a \<Longrightarrow> js_split sep (a @ sep # b) = a # js_split sep b"
  by (induction a) auto

lemma pieces_first:
  assumes "CHR '';'' \<notin> set t" "CHR '';'' \<notin> set p"
    and "rest = [] \<or> (\<exists>r. rest = CHR '';'' # r)"
  shows "js_index (js_split CHR '';'' (t @ CHR '';'' # p @ rest)) 0 = Some t"
    and "js_index (js_split CHR '';'' (t @ CHR '';'' # p @ rest)) 1 = Some p"
proof -
  have "\<exists>extra. js_split CHR '';'' (p @ rest) = p # extra"
    using assms(2,3) by (auto simp: js_split_without js_split_append)
  then obtain extra where "js_split CHR '';'' (p @ rest) = p # extra" ..
  then have "js_split CHR '';'' (t @ CHR '';'' # p @ rest) = t # p # extra"
    using assms(1) by (simp add: js_split_append)
  then show "js_index (js_split CHR '';'' (t @ CHR '';'' # p @ rest)) 0 = Some t"
    and "js_index (js_split CHR '';'' (t @ CHR '';'' # p @ rest)) 1 = Some p"
    by (simp_all add: js_index_def)
qed

lemma weighted_plain:
  assumes "CHR '';'' \<notin> set (js_replace_ws w)"
  shows "weighted X w = \<lparr>tag = js_replace_ws w, quality = Finite 1\<rparr>"
  using assms by (simp add: weighted_def js_split_without js_index_def truthy_str_def)

lemma weighted_first_parameter:
  assumes c: "js_replace_ws w = t @ CHR '';'' # p @ rest"
    and "CHR '';'' \<notin> set t" "CHR '';'' \<notin> set p"
    and "rest = [] \<or> (\<exists>r. rest = CHR '';'' # r)"
  shows "weighted X w =
     \<lparr>tag = t,
      quality = (if p = [] then Finite 1
                 else js_parseFloat X (js_index (js_split CHR ''='' p) 1))\<rparr>"
  using pieces_first [OF assms(2-4)]
  by (simp add: weighted_def c truthy_str_def)


text \<open>
  Claim C4, as stated, at inputs where it fails. The component \<^verbatim>\<open>en;level=1;q=0.5\<close> has
  the \<open>q=\<close> parameter \<^verbatim>\<open>q=0.5\<close>, whose float value is 0.5, and the code gives it the
  quality 1, the value of its first parameter. The component \<^verbatim>\<open>en;level=0.3\<close> has no
  \<open>q=\<close> parameter, so the claim gives it 1.0, and the code gives it 0.3.
\<close>

theorem quality_not_of_q_parameter:
  "q_parameter (js_replace_ws ''en;level=1;q=0.5'') = Some ''0.5'' \<and>
   claimed_quality node_externals ''en;level=1;q=0.5'' = Finite (1 / 2) \<and>
   quality (weighted node_externals ''en;level=1;q=0.5'') = Finite 1 \<and>
   q_parameter (js_replace_ws ''en;level=0.3'') = None \<and>
   claimed_quality node_externals ''en;level=0.3'' = Finite 1 \<and>
   quality (weighted node_externals ''en;level=0.3'') = Finite (3 / 10)"
  by code_simp

text \<open>
  Claim C4, amended. Take a component after the first run of white space is removed. Its
  tag is the text before the first \<^verbatim>\<open>;\<close>. Its quality is 1.0 when it has no \<^verbatim>\<open>;\<close>, and
  when its first parameter (the text between the first \<^verbatim>\<open>;\<close> and the next) is empty.
  When the first parameter is \<open>name=value\<close>, the quality is the float value of \<open>value\<close>,
  whatever the name is; for a component \<^verbatim>\<open>tag;q=v\<close> that is the float value of \<open>v\<close>. When
  the first parameter has a second \<^verbatim>\<open>=\<close>, the value ends there and the rest is not read. When
  the first parameter is not empty and has no \<^verbatim>\<open>=\<close>, the quality is what \<^verbatim>\<open>parseFloat\<close>
  makes of \<^verbatim>\<open>undefined\<close> (not-a-number). Later parameters are never read. The components
  kept are those with tag text, and no component raises an error.
\<close>

theorem quality_of_component:
  "(CHR '';'' \<notin> set (js_replace_ws w) \<longrightarrow>
      weighted X w = \<lparr>tag = js_replace_ws w, quality = Finite 1\<rparr>) \<and>
   (js_replace_ws w = t @ CHR '';'' # rest \<and> CHR '';'' \<notin> set t \<and>
    (rest = [] \<or> (\<exists>r. rest = CHR '';'' # r)) \<longrightarrow>
      weighted X w = \<lparr>tag = t, quality = Finite 1\<rparr>) \<and>
   (js_replace_ws w = t @ CHR '';'' # n @ CHR ''='' # v @ rest \<and>
    CHR '';'' \<notin> set t \<and> CHR '';'' \<notin> set n \<and> CHR ''='' \<notin> set n \<and>
    CHR '';'' \<notin> set v \<and> CHR ''='' \<notin> set v \<and>
    (rest = [] \<or> (\<exists>r. rest = CHR '';'' # r)) \<longrightarrow>
      weighted X w = \<lparr>tag = t, quality = parseFloat X v\<rparr>) \<and>
   (js_replace_ws w = t @ CHR '';'' # n @ rest \<and>
    CHR '';'' \<notin> set t \<and> n \<noteq> [] \<and> CHR '';'' \<notin> set n \<and> CHR ''='' \<notin> set n \<and>
    (rest = [] \<or> (\<exists>r. rest = CHR '';'' # r)) \<longrightarrow>
      weighted X w = \<lparr>tag = t, quality = parseFloat X ''undefined''\<rparr>) \<and>
   (js_replace_ws w = t @ CHR '';'' # n @ CHR ''='' # v @ CHR ''='' # extra @ rest \<and>
    CHR '';'' \<notin> set t \<and> CHR '';'' \<notin> set n \<and> CHR ''='' \<notin> set n \<and>
    CHR '';'' \<notin> set v \<and> CHR ''='' \<notin> set v \<and> CHR '';'' \<notin> set extra \<and>
    (rest = [] \<or> (\<exists>r. rest = CHR '';'' # r)) \<longrightarrow>
      weighted X w = \<lparr>tag = t, quality = parseFloat X v\<rparr>) \<and>
   set (weighted_tags X s) = {c \<in> weighted X ` set (js_split CHR '','' s). tag c \<noteq> []} \<and>
   (stable_permutes X \<longrightarrow>
      set (parseAndSortLanguageTags X s) =
        {c \<in> weighted X ` set (js_split CHR '','' s). tag c \<noteq> []})"
proof (intro conjI impI)
  assume "CHR '';'' \<notin> set (js_replace_ws w)"
  then show "weighted X w = \<lparr>tag = js_replace_ws w, quality = Finite 1\<rparr>"
    by (rule weighted_plain)
next
  assume h: "js_replace_ws w = t @ CHR '';'' # rest \<and> CHR '';'' \<notin> set t \<and>
    (rest = [] \<or> (\<exists>r. rest = CHR '';'' # r))"
  then have "js_replace_ws w = t @ CHR '';'' # [] @ rest" by simp
  from weighted_first_parameter [OF this, of X] h
  show "weighted X w = \<lparr>tag = t, quality = Finite 1\<rparr>" by simp
next
  assume h: "js_replace_ws w = t @ CHR '';'' # n @ CHR ''='' # v @ rest \<and>
    CHR '';'' \<notin> set t \<and> CHR '';'' \<notin> set n \<and> CHR ''='' \<notin> set n \<and>
    CHR '';'' \<notin> set v \<and> CHR ''='' \<notin> set v \<and>
    (rest = [] \<or> (\<exists>r. rest = CHR '';'' # r))"
  then have c: "js_replace_ws w = t @ CHR '';'' # (n @ CHR ''='' # v) @ rest" by simp
  have sp: "js_split CHR ''='' (n @ CHR ''='' # v) = [n, v]"
    using h by (simp add: js_split_append js_split_without)
  from h have "CHR '';'' \<notin> set (n @ CHR ''='' # v)" by simp
  from weighted_first_parameter [OF c _ this, of X] h
  show "weighted X w = \<lparr>tag = t, quality = parseFloat X v\<rparr>"
    by (simp add: sp js_index_def js_parseFloat_def)
next
  assume h: "js_replace_ws w = t @ CHR '';'' # n @ rest \<and>
    CHR '';'' \<notin> set t \<and> n \<noteq> [] \<and> CHR '';'' \<notin> set n \<and> CHR ''='' \<notin> set n \<and>
    (rest = [] \<or> (\<exists>r. rest = CHR '';'' # r))"
  have sp: "js_split CHR ''='' n = [n]"
    using h by (simp add: js_split_without)
  from h have c: "js_replace_ws w = t @ CHR '';'' # n @ rest" by simp
  from weighted_first_parameter [OF c, of X] h
  show "weighted X w = \<lparr>tag = t, quality = parseFloat X ''undefined''\<rparr>"
    by (simp add: sp js_index_def js_parseFloat_def)
next
  assume h: "js_replace_ws w = t @ CHR '';'' # n @ CHR ''='' # v @ CHR ''='' # extra @ rest \<and>
    CHR '';'' \<notin> set t \<and> CHR '';'' \<notin> set n \<and> CHR ''='' \<notin> set n \<and>
    CHR '';'' \<notin> set v \<and> CHR ''='' \<notin> set v \<and> CHR '';'' \<notin> set extra \<and>
    (rest = [] \<or> (\<exists>r. rest = CHR '';'' # r))"
  then have c: "js_replace_ws w = t @ CHR '';'' # (n @ CHR ''='' # v @ CHR ''='' # extra) @ rest"
    by simp
  have "js_split CHR ''='' (n @ CHR ''='' # v @ CHR ''='' # extra) =
        n # v # js_split CHR ''='' extra"
    using h by (simp add: js_split_append)
  then have sp: "js_index (js_split CHR ''='' (n @ CHR ''='' # v @ CHR ''='' # extra)) (Suc 0) =
      Some v"
    by (simp add: js_index_def)
  from h have "CHR '';'' \<notin> set (n @ CHR ''='' # v @ CHR ''='' # extra)" by simp
  from weighted_first_parameter [OF c _ this, of X] h
  show "weighted X w = \<lparr>tag = t, quality = parseFloat X v\<rparr>"
    by (simp add: sp js_parseFloat_def)
next
  show w: "set (weighted_tags X s) =
      {c \<in> weighted X ` set (js_split CHR '','' s). tag c \<noteq> []}"
    by (auto simp: weighted_tags_def defined_tag_def)
  assume "stable_permutes X"
  then show "set (parseAndSortLanguageTags X s) =
      {c \<in> weighted X ` set (js_split CHR '','' s). tag c \<noteq> []}"
    using sorted_set [of X s] w by simp
qed

theorem quality_of_component_witness:
  "weighted node_externals ''fr'' = \<lparr>tag = ''fr'', quality = Finite 1\<rparr> \<and>
   weighted node_externals ''en;'' = \<lparr>tag = ''en'', quality = Finite 1\<rparr> \<and>
   weighted node_externals '' en-US; q=0.8'' = \<lparr>tag = ''en-US'', quality = Finite (4 / 5)\<rparr> \<and>
   weighted node_externals ''en;level=1;q=0.5'' = \<lparr>tag = ''en'', quality = Finite 1\<rparr> \<and>
   weighted node_externals ''en;q'' = \<lparr>tag = ''en'', quality = NaN\<rparr> \<and>
   weighted node_externals ''en;q=0.5=7'' = \<lparr>tag = ''en'', quality = Finite (1 / 2)\<rparr> \<and>
   stable_permutes node_externals \<and>
   map tag (parseAndSortLanguageTags node_externals '',en;q=0.1,,;q=1,fr'') = [''fr'', ''en'']"
proof -
  note t = quality_of_component [where X = node_externals]
  have r1: "js_replace_ws ''fr'' = ''fr''" by code_simp
  have w1: "weighted node_externals ''fr'' = \<lparr>tag = ''fr'', quality = Finite 1\<rparr>"
    using t [where w = "''fr''", THEN conjunct1] unfolding r1 by simp
  have r2: "js_replace_ws ''en;'' = ''en'' @ CHR '';'' # []" by code_simp
  have w2: "weighted node_externals ''en;'' = \<lparr>tag = ''en'', quality = Finite 1\<rparr>"
    using t [where w = "''en;''" and t = "''en''" and rest = "[]",
             THEN conjunct2, THEN conjunct1] r2 by simp
  have r3: "js_replace_ws '' en-US; q=0.8'' =
      ''en-US'' @ CHR '';'' # '' q'' @ CHR ''='' # ''0.8'' @ []"
    by code_simp
  have p3: "parseFloat node_externals ''0.8'' = Finite (4 / 5)" by code_simp
  have w3: "weighted node_externals '' en-US; q=0.8'' =
      \<lparr>tag = ''en-US'', quality = Finite (4 / 5)\<rparr>"
    using t [where w = "'' en-US; q=0.8''" and t = "''en-US''" and n = "'' q''"
               and v = "''0.8''" and rest = "[]",
             THEN conjunct2, THEN conjunct2, THEN conjunct1] r3 p3 by simp
  have r4: "js_replace_ws ''en;level=1;q=0.5'' =
      ''en'' @ CHR '';'' # ''level'' @ CHR ''='' # ''1'' @ '';q=0.5''"
    by code_simp
  have p4: "parseFloat node_externals ''1'' = Finite 1" by code_simp
  have w4: "weighted node_externals ''en;level=1;q=0.5'' = \<lparr>tag = ''en'', quality = Finite 1\<rparr>"
    using t [where w = "''en;level=1;q=0.5''" and t = "''en''" and n = "''level''"
               and v = "''1''" and rest = "'';q=0.5''",
             THEN conjunct2, THEN conjunct2, THEN conjunct1] r4 p4 by simp
  have r5: "js_replace_ws ''en;q'' = ''en'' @ CHR '';'' # ''q'' @ []" by code_simp
  have p5: "parseFloat node_externals ''undefined'' = NaN" by code_simp
  have w5: "weighted node_externals ''en;q'' = \<lparr>tag = ''en'', quality = NaN\<rparr>"
    using t [where w = "''en;q''" and t = "''en''" and n = "''q''" and rest = "[]",
             THEN conjunct2, THEN conjunct2, THEN conjunct2, THEN conjunct1] r5 p5 by simp
  have r6: "js_replace_ws ''en;q=0.5=7'' =
      ''en'' @ CHR '';'' # ''q'' @ CHR ''='' # ''0.5'' @ CHR ''='' # ''7'' @ []"
    by code_simp
  have p6: "parseFloat node_externals ''0.5'' = Finite (1 / 2)" by code_simp
  have w6: "weighted node_externals ''en;q=0.5=7'' = \<lparr>tag = ''en'', quality = Finite (1 / 2)\<rparr>"
    using t [where w = "''en;q=0.5=7''" and t = "''en''" and n = "''q''" and v = "''0.5''"
               and extra = "''7''" and rest = "[]",
             THEN conjunct2, THEN conjunct2, THEN conjunct2, THEN conjunct2, THEN conjunct1]
          r6 p6 by simp
  have e: "map tag (parseAndSortLanguageTags node_externals '',en;q=0.1,,;q=1,fr'') =
      [''fr'', ''en'']"
    by code_simp
  from w1 w2 w3 w4 w5 w6 node_stable_permutes e show ?thesis by blast
qed

end
